theory Spec2Isabelle
  imports Complex_Main "HOL-Library.AList" "HOL-Library.Multiset" "HOL-Library.Product_Lexorder"
begin

section \<open>The TTL cache with optional size bound (\<^verbatim>\<open>createTtlCache\<close>)\<close>

text \<open>
  The JavaScript \<^verbatim>\<open>Map\<close> behind the cache iterates in insertion order; \<^verbatim>\<open>store.set\<close> of a
  key already present replaces the value where it stands, of a new key appends, and
  \<^verbatim>\<open>store.delete\<close> removes the key. An association list with \<open>AList.update\<close> and
  \<open>AList.delete\<close> behaves the same way. \<^verbatim>\<open>Date.now()\<close> is a parameter of every operation that
  reads the clock; \<^verbatim>\<open>set\<close> reads it twice (once in \<^verbatim>\<open>pruneExpired\<close>, once for the expiry).
  Times, TTLs and \<^verbatim>\<open>maxSize\<close> are integers (\<^verbatim>\<open>maxSize = 0\<close> is the default: unbounded).
\<close>

record 'v cache_entry =
  entry_value :: 'v
  expiresAt :: int

type_synonym 'v store = "(string \<times> 'v cache_entry) list"

definition pruneExpired :: "int \<Rightarrow> 'v store \<Rightarrow> 'v store" where
  "pruneExpired now store = filter (\<lambda>(key, entry). \<not> now > expiresAt entry) store"

definition evictLru :: "int \<Rightarrow> 'v store \<Rightarrow> 'v store" where
  "evictLru maxSize store =
     (if maxSize \<le> 0 \<or> int (length store) < maxSize then store
      else (case store of [] \<Rightarrow> store | (firstKey, _) # _ \<Rightarrow> AList.delete firstKey store))"

lemma evictLru_shrinks:
  "0 < maxSize \<Longrightarrow> maxSize \<le> int (length store) \<Longrightarrow>
     length (evictLru maxSize store) < length store"
  by (cases store) (auto simp: evictLru_def le_imp_less_Suc AList.length_delete_le)

text \<open>
  The loop \<^verbatim>\<open>while (store.size >= maxSize) evictLru()\<close>. The source enters it only under
  \<^verbatim>\<open>maxSize > 0\<close>, which is part of the loop condition here, so that the function is total.
\<close>

function evict_while :: "int \<Rightarrow> 'v store \<Rightarrow> 'v store" where
  "evict_while maxSize store =
     (if 0 < maxSize \<and> maxSize \<le> int (length store)
      then evict_while maxSize (evictLru maxSize store) else store)"
  by pat_completeness auto
termination
  by (relation "measure (\<lambda>(maxSize, store). length store)") (auto simp: evictLru_shrinks)

declare evict_while.simps [simp del]

definition get_entry :: "int \<Rightarrow> int \<Rightarrow> string \<Rightarrow> 'v store \<Rightarrow> 'v option \<times> 'v store" where
  "get_entry maxSize now key store =
     (case map_of store key of
        None \<Rightarrow> (None, store)
      | Some entry \<Rightarrow>
          if now > expiresAt entry then (None, AList.delete key store)
          else (Some (entry_value entry),
                if maxSize > 0 then AList.update key entry (AList.delete key store) else store))"

definition set_entry ::
  "int \<Rightarrow> int \<Rightarrow> int \<Rightarrow> string \<Rightarrow> 'v \<Rightarrow> int \<Rightarrow> 'v store \<Rightarrow> 'v store" where
  "set_entry maxSize now now' key v ttlMs store =
     (let pruned = pruneExpired now store;
          isNew = (map_of pruned key = None);
          evicted = (if isNew \<and> maxSize > 0 then evict_while maxSize pruned else pruned);
          entry = \<lparr>entry_value = v, expiresAt = now' + ttlMs\<rparr>;
          removed = (if maxSize > 0 \<and> \<not> isNew then AList.delete key evicted else evicted)
      in AList.update key entry removed)"

text \<open>A client's use of one cache: a sequence of reads and writes, each at its clock readings.\<close>

datatype 'v cache_op = Get int string | Set int int string 'v int

fun apply_cache_op :: "int \<Rightarrow> 'v store \<Rightarrow> 'v cache_op \<Rightarrow> 'v store" where
  "apply_cache_op maxSize store (Get now key) = snd (get_entry maxSize now key store)"
| "apply_cache_op maxSize store (Set now now' key v ttlMs) =
     set_entry maxSize now now' key v ttlMs store"

definition run_cache_ops :: "int \<Rightarrow> 'v cache_op list \<Rightarrow> 'v store" where
  "run_cache_ops maxSize ops = foldl (apply_cache_op maxSize) [] ops"

section \<open>Strings and numbers of the host language\<close>

text \<open>
  Strings are \<^typ>\<open>string\<close>, read as byte strings (UTF-8): the em dash placeholder of the
  source is the three bytes \<open>E2 80 94\<close>, the en dash of the messages \<open>E2 80 93\<close>.
  Whitespace is the ASCII whitespace (tab, line feed, vertical tab, form feed, carriage
  return, space); the other Unicode white space (U+00A0, U+FEFF and the like) is not
  treated as such, so \<open>trim\<close> and \<open>parseInt\<close> are those of the source on strings whose white
  space is ASCII. Numbers are integers; \<^verbatim>\<open>NaN\<close> is \<open>None\<close>.
\<close>

definition isWhiteSpace :: "char \<Rightarrow> bool" where
  "isWhiteSpace c = (c \<in> set [CHR 0x09, CHR 0x0A, CHR 0x0B, CHR 0x0C, CHR 0x0D, CHR 0x20])"

definition trim :: "string \<Rightarrow> string" where
  "trim s = rev (dropWhile isWhiteSpace (rev (dropWhile isWhiteSpace s)))"

definition isDigit :: "char \<Rightarrow> bool" where
  "isDigit c = (48 \<le> (of_char c :: nat) \<and> (of_char c :: nat) \<le> 57)"

definition digitValue :: "char \<Rightarrow> nat" where
  "digitValue c = of_char c - 48"

text \<open>\<^verbatim>\<open>s.split(sep)\<close> for a one-character separator: never an empty array.\<close>

fun splitOn :: "char \<Rightarrow> string \<Rightarrow> string list" where
  "splitOn sep [] = [[]]"
| "splitOn sep (c # cs) =
     (if c = sep then [] # splitOn sep cs
      else (case splitOn sep cs of [] \<Rightarrow> [[c]] | part # parts \<Rightarrow> (c # part) # parts))"

text \<open>
  \<^verbatim>\<open>parseInt(s, 10)\<close>: leading whitespace is skipped, one sign is read, then the longest run
  of decimal digits; no digit gives \<^verbatim>\<open>NaN\<close>, whatever follows the digits is ignored.
\<close>

definition parseInt :: "string \<Rightarrow> int option" where
  "parseInt s =
     (let t = dropWhile isWhiteSpace s;
          sign = (case t of c # _ \<Rightarrow> if c = CHR ''-'' then - 1 else (1::int) | [] \<Rightarrow> 1);
          u = (case t of c # r \<Rightarrow> if c = CHR ''-'' \<or> c = CHR ''+'' then r else t | [] \<Rightarrow> t);
          ds = takeWhile isDigit u
      in if ds = [] then None
         else Some (sign * int (foldl (\<lambda>acc d. 10 * acc + digitValue d) 0 ds)))"

text \<open>A number in a template literal: the decimal digits of an integer.\<close>

fun natToString :: "nat \<Rightarrow> string" where
  "natToString n =
     (if n < 10 then [''0123456789'' ! n]
      else natToString (n div 10) @ [''0123456789'' ! (n mod 10)])"

declare natToString.simps [simp del]

definition numberToString :: "int \<Rightarrow> string" where
  "numberToString i = (if i < 0 then CHR ''-'' # natToString (nat (- i)) else natToString (nat i))"

text \<open>\<^verbatim>\<open>a ?? b ?? ... ?? d\<close>: the first operand that is present, else the last one.\<close>

fun coalesce :: "'a option list \<Rightarrow> 'a \<Rightarrow> 'a" where
  "coalesce [] d = d"
| "coalesce (None # xs) d = coalesce xs d"
| "coalesce (Some x # xs) d = x"

section \<open>Standings, events and player statistics\<close>

text \<open>
  The fields of the source's types that the leaderboard and the standings resolver read.
  An optional field is an \<open>option\<close>. Field names that clash with another record's or with
  a keyword carry a prefix.
\<close>

record Player =
  player_best_identifier :: "string option"
  player_id :: "int option"

record UserEventStatus =
  ues_best_identifier :: "string option"

record StandingEntry =
  rank :: "int option"
  placement :: "int option"
  player :: "Player option"
  player_name :: "string option"
  username :: "string option"
  display_name :: "string option"
  wins :: "int option"
  losses :: "int option"
  record_field :: "string option"
  match_record :: "string option"
  user_event_status :: "UserEventStatus option"

record TournamentRound =
  round_id :: int
  round_number :: int
  standings_status :: "string option"

record TournamentPhase =
  rounds :: "TournamentRound list option"

record Store =
  store_id :: int
  store_name :: string

record Event =
  event_id :: int
  event_name :: string
  start_datetime :: string
  display_status :: "string option"
  event_lifecycle_status :: "string option"
  event_store :: "Store option"
  tournament_phases :: "TournamentPhase list option"

record EventStandings =
  event :: Event
  standings :: "StandingEntry list"

record PlayerStats =
  playerName :: string
  totalWins :: int
  totalLosses :: int
  eventsPlayed :: int
  bestPlacement :: int
  firstPlaceFinishes :: int
  placements :: "int list"

datatype LeaderboardSortBy = total_wins | events_played | win_rate | best_placement

section \<open>Leaderboard aggregation (\<^verbatim>\<open>aggregateStandingsToPlayers\<close> and its helpers)\<close>

definition parseRecordToWinsLosses :: "string option \<Rightarrow> int \<times> int" where
  "parseRecordToWinsLosses record =
     (case record of
        None \<Rightarrow> (0, 0)
      | Some r \<Rightarrow>
          if trim r = [] then (0, 0)
          else (case map (\<lambda>s. parseInt (trim s)) (splitOn CHR ''-'' r) of
                  Some w # Some l # _ \<Rightarrow> (w, l)
                | _ \<Rightarrow> (0, 0)))"

definition unknownPlayer :: string where
  "unknownPlayer = [CHR 0xE2, CHR 0x80, CHR 0x94]"

definition standingPlayerKey :: "StandingEntry \<Rightarrow> string" where
  "standingPlayerKey entry =
     (case Option.bind (player entry) player_id of
        Some i \<Rightarrow> ''player_id:'' @ numberToString i
      | None \<Rightarrow>
          coalesce [Option.bind (player entry) player_best_identifier, player_name entry,
                    display_name entry, username entry] unknownPlayer)"

definition standingPlayerDisplayName :: "StandingEntry \<Rightarrow> string" where
  "standingPlayerDisplayName entry =
     coalesce [Option.bind (user_event_status entry) ues_best_identifier,
               Option.bind (player entry) player_best_identifier, player_name entry,
               display_name entry, username entry] unknownPlayer"

definition standingPlacement :: "StandingEntry \<Rightarrow> nat \<Rightarrow> int" where
  "standingPlacement entry index = coalesce [rank entry, placement entry] (int index + 1)"

definition standingWinsLosses :: "StandingEntry \<Rightarrow> int \<times> int" where
  "standingWinsLosses entry =
     (case (wins entry, losses entry) of
        (Some w, Some l) \<Rightarrow> (w, l)
      | _ \<Rightarrow> parseRecordToWinsLosses
               (case record_field entry of Some r \<Rightarrow> Some r | None \<Rightarrow> match_record entry))"

text \<open>The value type of the local map \<^verbatim>\<open>agg\<close>, a map in insertion order.\<close>

record AggRec =
  displayName :: string
  hasUserEventStatus :: bool
  rec_wins :: int
  rec_losses :: int
  rec_eventsPlayed :: int
  rec_placements :: "int list"

type_synonym agg = "(string \<times> AggRec) list"

text \<open>The body of the inner loop, for the entry at index \<open>i\<close> of an event's standings.\<close>

definition accumulateEntry :: "agg \<Rightarrow> nat \<times> StandingEntry \<Rightarrow> agg" where
  "accumulateEntry agg ie =
     (let i = fst ie; entry = snd ie; key = standingPlayerKey entry in
      if key = unknownPlayer then agg
      else
        let dn = standingPlayerDisplayName entry;
            hasUes = (Option.bind (user_event_status entry) ues_best_identifier \<noteq> None);
            pl = standingPlacement entry i;
            wl = standingWinsLosses entry;
            rec0 = (case map_of agg key of
                      None \<Rightarrow> \<lparr>displayName = dn, hasUserEventStatus = hasUes, rec_wins = 0,
                                rec_losses = 0, rec_eventsPlayed = 0, rec_placements = []\<rparr>
                    | Some r \<Rightarrow>
                        if hasUes \<and> \<not> hasUserEventStatus r
                        then r\<lparr>displayName := dn, hasUserEventStatus := True\<rparr> else r)
        in AList.update key
             (rec0\<lparr>rec_wins := rec_wins rec0 + fst wl, rec_losses := rec_losses rec0 + snd wl,
                   rec_eventsPlayed := rec_eventsPlayed rec0 + 1,
                   rec_placements := rec_placements rec0 @ [pl]\<rparr>) agg)"

definition accumulateStandings :: "agg \<Rightarrow> StandingEntry list \<Rightarrow> agg" where
  "accumulateStandings agg sts = foldl accumulateEntry agg (enumerate 0 sts)"

definition accumulateEvents :: "EventStandings list \<Rightarrow> agg" where
  "accumulateEvents eventStandings =
     foldl (\<lambda>agg es. accumulateStandings agg (standings es)) [] eventStandings"

text \<open>
  \<^verbatim>\<open>Math.min(...r.placements)\<close> is the least placement; the list of an accumulated record is
  never empty (\<open>accumulateEvents_nonempty\<close> below), so the \<^verbatim>\<open>Infinity\<close> of an empty argument
  list does not arise.
\<close>

definition toPlayerStats :: "AggRec \<Rightarrow> PlayerStats" where
  "toPlayerStats r =
     \<lparr>playerName = displayName r, totalWins = rec_wins r, totalLosses = rec_losses r,
      eventsPlayed = rec_eventsPlayed r, bestPlacement = Min (set (rec_placements r)),
      firstPlaceFinishes = int (length (filter (\<lambda>p. p = 1) (rec_placements r))),
      placements = rec_placements r\<rparr>"

text \<open>
  The comparators of \<^verbatim>\<open>sortPlayers\<close>, as written: a negative result puts \<open>a\<close> first. The
  win rates are exact rationals.
\<close>

definition cmp_total_wins :: "PlayerStats \<Rightarrow> PlayerStats \<Rightarrow> rat" where
  "cmp_total_wins a b =
     (if totalWins b \<noteq> totalWins a then of_int (totalWins b - totalWins a)
      else if totalLosses a \<noteq> totalLosses b then of_int (totalLosses a - totalLosses b)
      else of_int (bestPlacement a - bestPlacement b))"

definition cmp_events_played :: "PlayerStats \<Rightarrow> PlayerStats \<Rightarrow> rat" where
  "cmp_events_played a b =
     (if eventsPlayed b \<noteq> eventsPlayed a then of_int (eventsPlayed b - eventsPlayed a)
      else if totalWins b \<noteq> totalWins a then of_int (totalWins b - totalWins a)
      else if totalLosses a \<noteq> totalLosses b then of_int (totalLosses a - totalLosses b)
      else of_int (bestPlacement a - bestPlacement b))"

definition winRate :: "PlayerStats \<Rightarrow> rat" where
  "winRate a =
     (if totalWins a + totalLosses a > 0
      then of_int (totalWins a) / of_int (totalWins a + totalLosses a) else 0)"

definition cmp_win_rate :: "PlayerStats \<Rightarrow> PlayerStats \<Rightarrow> rat" where
  "cmp_win_rate a b =
     (if winRate b \<noteq> winRate a then winRate b - winRate a
      else if totalWins b \<noteq> totalWins a then of_int (totalWins b - totalWins a)
      else if totalLosses a \<noteq> totalLosses b then of_int (totalLosses a - totalLosses b)
      else of_int (bestPlacement a - bestPlacement b))"

definition cmp_best_placement :: "PlayerStats \<Rightarrow> PlayerStats \<Rightarrow> rat" where
  "cmp_best_placement a b =
     (if bestPlacement a \<noteq> bestPlacement b then of_int (bestPlacement a - bestPlacement b)
      else if totalWins b \<noteq> totalWins a then of_int (totalWins b - totalWins a)
      else if totalLosses a \<noteq> totalLosses b then of_int (totalLosses a - totalLosses b)
      else 0)"

text \<open>
  \<^verbatim>\<open>Array.prototype.sort\<close> with a comparator is a stable sort: elements that compare equal
  keep their order. Stable insertion sort gives the same list.
\<close>

fun insertBy :: "('a \<Rightarrow> 'a \<Rightarrow> rat) \<Rightarrow> 'a \<Rightarrow> 'a list \<Rightarrow> 'a list" where
  "insertBy cmp x [] = [x]"
| "insertBy cmp x (y # ys) = (if cmp x y \<le> 0 then x # y # ys else y # insertBy cmp x ys)"

definition stableSort :: "('a \<Rightarrow> 'a \<Rightarrow> rat) \<Rightarrow> 'a list \<Rightarrow> 'a list" where
  "stableSort cmp xs = foldr (insertBy cmp) xs []"

definition sortPlayers :: "PlayerStats list \<Rightarrow> LeaderboardSortBy \<Rightarrow> PlayerStats list" where
  "sortPlayers players sb =
     (case sb of
        total_wins \<Rightarrow> stableSort cmp_total_wins players
      | events_played \<Rightarrow> stableSort cmp_events_played players
      | win_rate \<Rightarrow> stableSort cmp_win_rate players
      | best_placement \<Rightarrow> stableSort cmp_best_placement players)"

text \<open>\<^verbatim>\<open>xs.slice(0, limit)\<close>; a negative end counts from the end of the array.\<close>

definition slice0 :: "'a list \<Rightarrow> int \<Rightarrow> 'a list" where
  "slice0 xs limit =
     (if limit < 0 then take (nat (int (length xs) + limit)) xs else take (nat limit) xs)"

definition aggregateStandingsToPlayers ::
  "EventStandings list \<Rightarrow> int \<Rightarrow> LeaderboardSortBy \<Rightarrow> int \<Rightarrow> PlayerStats list" where
  "aggregateStandingsToPlayers eventStandings minEvents sb limit =
     (let agg = accumulateEvents eventStandings;
          players = map toPlayerStats
                      (filter (\<lambda>r. rec_eventsPlayed r \<ge> minEvents) (map snd agg))
      in slice0 (sortPlayers players sb) limit)"

section \<open>The leaderboard entry points (\<^verbatim>\<open>getPlayerLeaderboardByCity\<close>, \<^verbatim>\<open>getPlayerLeaderboardByStore\<close>)\<close>

text \<open>
  The collaborators are parameters: the host's date parser (\<^verbatim>\<open>new Date(s).getTime()\<close>, in
  milliseconds, \<open>None\<close> for an invalid date), the geocoder, the two event searches (an
  error object is \<open>Inl\<close>) and the standings fan-out \<^verbatim>\<open>fetchAllEventStandings\<close>. Arguments
  with a default are \<open>option\<close>s.
\<close>

definition MAX_LEADERBOARD_DATE_RANGE_DAYS :: int where
  "MAX_LEADERBOARD_DATE_RANGE_DAYS = 366"

definition MAX_LEADERBOARD_RADIUS_MILES :: int where
  "MAX_LEADERBOARD_RADIUS_MILES = 100"

definition MAX_LEADERBOARD_LIMIT :: int where
  "MAX_LEADERBOARD_LIMIT = 100"

text \<open>\<^verbatim>\<open>Math.round(a / b)\<close> for integers \<open>a\<close> and \<open>b > 0\<close>: the floor of \<open>a / b + 1/2\<close>.\<close>

definition roundDiv :: "int \<Rightarrow> int \<Rightarrow> int" where
  "roundDiv a b = (2 * a + b) div (2 * b)"

definition validateDateRange :: "(string \<Rightarrow> int option) \<Rightarrow> string \<Rightarrow> string \<Rightarrow> string option" where
  "validateDateRange dateParse startDate endDate =
     (case (dateParse (startDate @ ''T00:00:00Z''), dateParse (endDate @ ''T23:59:59Z'')) of
        (Some startMs, Some endMs) \<Rightarrow>
          if startMs > endMs then Some ''start_date must be on or before end_date.''
          else if roundDiv (endMs - startMs) (24 * 60 * 60 * 1000) > MAX_LEADERBOARD_DATE_RANGE_DAYS
          then Some (''Date range cannot exceed '' @ numberToString MAX_LEADERBOARD_DATE_RANGE_DAYS
                       @ '' days (about 1 year).'')
          else None
      | _ \<Rightarrow> Some ''Dates must be valid YYYY-MM-DD.'')"

definition filterByMinRounds :: "EventStandings list \<Rightarrow> int option \<Rightarrow> EventStandings list" where
  "filterByMinRounds eventStandings minRounds =
     (case minRounds of
        None \<Rightarrow> eventStandings
      | Some m \<Rightarrow>
          if m = 0 then eventStandings
          else filter (\<lambda>es.
                 foldl (\<lambda>sum phase. sum + (case rounds phase of None \<Rightarrow> 0 | Some rs \<Rightarrow> int (length rs)))
                   0 (case tournament_phases (event es) of None \<Rightarrow> [] | Some phases \<Rightarrow> phases)
                 \<ge> m) eventStandings)"

record GeocodeCityResult =
  geo_lat :: rat
  geo_lon :: rat
  geo_display_name :: string

record EventSearchResult =
  result_events :: "Event list"
  result_total :: int

record LeaderboardFilters =
  filter_city :: "string option"
  filter_store :: "string option"
  filter_minRounds :: "int option"

record LeaderboardResult =
  lb_players :: "PlayerStats list"
  lb_eventsAnalyzed :: int
  lb_eventsIncluded :: "(int \<times> string \<times> string) list"
  lb_dateRange :: "string \<times> string"
  lb_filters :: LeaderboardFilters

definition eventRefs :: "Event list \<Rightarrow> (int \<times> string \<times> string) list" where
  "eventRefs es = map (\<lambda>e. (event_id e, event_name e, start_datetime e)) es"

text \<open>
  The paging loops. They stop when a page is an error, is not full (100 events) or
  reaches the reported total; an upstream that keeps sending full pages under a larger
  total keeps them running, which is the value \<open>None\<close>.
\<close>

partial_function (option) collectEventsByCoords ::
  "(int \<Rightarrow> string + EventSearchResult) \<Rightarrow> int \<Rightarrow> (int \<times> string \<times> string) list
     \<Rightarrow> (string + (int \<times> string \<times> string) list) option" where
  "collectEventsByCoords search page allEvents =
     (case search page of
        Inl err \<Rightarrow> Some (Inl err)
      | Inr result \<Rightarrow>
          if int (length (result_events result)) = 100
             \<and> result_total result > int (length (allEvents @ eventRefs (result_events result)))
          then collectEventsByCoords search (page + 1) (allEvents @ eventRefs (result_events result))
          else Some (Inr (allEvents @ eventRefs (result_events result))))"

definition resolveStoreLabel :: "string option \<Rightarrow> Event list \<Rightarrow> string option" where
  "resolveStoreLabel label es =
     foldl (\<lambda>resolved e.
              if (resolved = None \<or> resolved = Some [])
                 \<and> (case event_store e of None \<Rightarrow> False | Some st \<Rightarrow> store_name st \<noteq> [])
              then map_option store_name (event_store e) else resolved) label es"

partial_function (option) collectEventsByStore ::
  "(string option \<Rightarrow> int \<Rightarrow> string + EventSearchResult) \<Rightarrow> int \<Rightarrow> (int \<times> string \<times> string) list
     \<Rightarrow> string option \<Rightarrow> (string + (int \<times> string \<times> string) list \<times> string option) option" where
  "collectEventsByStore search page allEvents resolvedStoreLabel =
     (case search resolvedStoreLabel page of
        Inl err \<Rightarrow> Some (Inl err)
      | Inr result \<Rightarrow>
          if int (length (result_events result)) = 100
             \<and> result_total result > int (length (allEvents @ eventRefs (result_events result)))
          then collectEventsByStore search (page + 1) (allEvents @ eventRefs (result_events result))
                 (resolveStoreLabel resolvedStoreLabel (result_events result))
          else Some (Inr (allEvents @ eventRefs (result_events result),
                          resolveStoreLabel resolvedStoreLabel (result_events result))))"

definition enDash :: string where
  "enDash = [CHR 0xE2, CHR 0x80, CHR 0x93]"

definition leaderboardOf ::
  "EventStandings list \<Rightarrow> int option \<Rightarrow> int \<Rightarrow> LeaderboardSortBy \<Rightarrow> int \<Rightarrow> string \<Rightarrow> string
     \<Rightarrow> string option \<Rightarrow> string option \<Rightarrow> LeaderboardResult" where
  "leaderboardOf eventStandings minRounds minEventsCap sb limitCap startDate endDate cityLabel storeLabel =
     (let filteredStandings = filterByMinRounds eventStandings minRounds
      in \<lparr>lb_players = aggregateStandingsToPlayers filteredStandings minEventsCap sb limitCap,
          lb_eventsAnalyzed = int (length filteredStandings),
          lb_eventsIncluded = map (\<lambda>es. (event_id (event es), event_name (event es),
                                        take 10 (start_datetime (event es)))) filteredStandings,
          lb_dateRange = (startDate, endDate),
          lb_filters = \<lparr>filter_city = cityLabel, filter_store = storeLabel,
                     filter_minRounds = (case minRounds of None \<Rightarrow> None
                                         | Some m \<Rightarrow> if m = 0 then None else Some m)\<rparr>\<rparr>)"

definition getPlayerLeaderboardByCity ::
  "(string \<Rightarrow> int option) \<Rightarrow> (string \<Rightarrow> GeocodeCityResult option)
     \<Rightarrow> (rat \<Rightarrow> rat \<Rightarrow> string \<Rightarrow> int \<Rightarrow> string list \<Rightarrow> string \<Rightarrow> string \<Rightarrow> int \<Rightarrow> int
           \<Rightarrow> string + EventSearchResult)
     \<Rightarrow> (int list \<Rightarrow> EventStandings list)
     \<Rightarrow> string \<Rightarrow> string \<Rightarrow> string \<Rightarrow> int option \<Rightarrow> int option \<Rightarrow> int option \<Rightarrow> int option
     \<Rightarrow> LeaderboardSortBy option \<Rightarrow> (string + LeaderboardResult) option" where
  "getPlayerLeaderboardByCity dateParse geocodeCity searchEventsByCoords fetchAllEventStandings
       city startDate endDate radiusMiles limit minEvents minRounds sortBy =
     (case validateDateRange dateParse startDate endDate of
        Some dateError \<Rightarrow> Some (Inl dateError)
      | None \<Rightarrow>
          let radius = min MAX_LEADERBOARD_RADIUS_MILES (max 0 (coalesce [radiusMiles] 50));
              limitCap = min MAX_LEADERBOARD_LIMIT (max 1 (coalesce [limit] 20));
              minEventsCap = max 1 (coalesce [minEvents] 1)
          in (case geocodeCity city of
                None \<Rightarrow> Some (Inl (''Could not find location: '' @ city))
              | Some geo \<Rightarrow>
                  (case collectEventsByCoords
                          (searchEventsByCoords (geo_lat geo) (geo_lon geo) (geo_display_name geo) radius
                             [''past'', ''inProgress''] startDate endDate 100) 1 [] of
                     None \<Rightarrow> None
                   | Some (Inl err) \<Rightarrow> Some (Inl err)
                   | Some (Inr allEvents) \<Rightarrow>
                       if length allEvents = 0
                       then Some (Inl (''No past or in-progress events found near ''
                                  @ geo_display_name geo @ '' for '' @ startDate @ '' '' @ enDash
                                  @ '' '' @ endDate @ ''. Try a larger radius or different dates.''))
                       else Some (Inr (leaderboardOf (fetchAllEventStandings (map fst allEvents))
                                    minRounds minEventsCap (coalesce [sortBy] total_wins) limitCap
                                    startDate endDate (Some (geo_display_name geo)) None)))))"

definition getPlayerLeaderboardByStore ::
  "(string \<Rightarrow> int option)
     \<Rightarrow> (int \<Rightarrow> string option \<Rightarrow> string list \<Rightarrow> string \<Rightarrow> string \<Rightarrow> int \<Rightarrow> int
           \<Rightarrow> string + EventSearchResult)
     \<Rightarrow> (int list \<Rightarrow> EventStandings list)
     \<Rightarrow> int \<Rightarrow> string option \<Rightarrow> string \<Rightarrow> string \<Rightarrow> int option \<Rightarrow> int option \<Rightarrow> int option
     \<Rightarrow> LeaderboardSortBy option \<Rightarrow> (string + LeaderboardResult) option" where
  "getPlayerLeaderboardByStore dateParse searchEventsByStore fetchAllEventStandings
       storeId storeLabel startDate endDate limit minEvents minRounds sortBy =
     (case validateDateRange dateParse startDate endDate of
        Some dateError \<Rightarrow> Some (Inl dateError)
      | None \<Rightarrow>
          let limitCap = min MAX_LEADERBOARD_LIMIT (max 1 (coalesce [limit] 20));
              minEventsCap = max 1 (coalesce [minEvents] 1)
          in (case collectEventsByStore
                     (\<lambda>label page. searchEventsByStore storeId label [''past'', ''inProgress'']
                                      startDate endDate 100 page) 1 [] storeLabel of
                None \<Rightarrow> None
              | Some (Inl err) \<Rightarrow> Some (Inl err)
              | Some (Inr (allEvents, resolvedStoreLabel)) \<Rightarrow>
                  if length allEvents = 0
                  then Some (Inl (''No past or in-progress events found at store ''
                             @ numberToString storeId @ '' for '' @ startDate @ '' '' @ enDash
                             @ '' '' @ endDate @ ''. Try different dates.''))
                  else Some (Inr (leaderboardOf (fetchAllEventStandings (map fst allEvents))
                               minRounds minEventsCap (coalesce [sortBy] total_wins) limitCap
                               startDate endDate None
                               (Some (coalesce [resolvedStoreLabel]
                                        (''Store '' @ numberToString storeId)))))))"

text \<open>
  The values of \<^verbatim>\<open>new Date(s).getTime()\<close> on Node (V8) for the strings that the examples pass
  to the parser, in milliseconds since the epoch. V8 accepts a day of month up to 31 in
  every month and carries the excess into the next month, so 30 February 2024 is the same
  instant as 1 March 2024. The table holds these strings only; the examples apply the
  parser to no other string.
\<close>

definition sampleDateParse :: "string \<Rightarrow> int option" where
  "sampleDateParse = map_of
     [(''2024-01-01T00:00:00Z'', 1704067200000), (''2024-01-01T23:59:59Z'', 1704153599000),
      (''2024-02-30T00:00:00Z'', 1709251200000), (''2024-02-30T23:59:59Z'', 1709337599000),
      (''2024-03-01T00:00:00Z'', 1709251200000), (''2024-03-01T23:59:59Z'', 1709337599000),
      (''2024-12-31T00:00:00Z'', 1735603200000), (''2024-12-31T23:59:59Z'', 1735689599000),
      (''2025-01-01T00:00:00Z'', 1735689600000), (''2025-01-01T23:59:59Z'', 1735775999000)]"

section \<open>The event standings resolver (\<^verbatim>\<open>getEventStandings\<close>)\<close>












section \<open>The bounded-concurrency runner (\<^verbatim>\<open>runWithBoundedConcurrency\<close>)\<close>

text \<open>
  The runtime is single-threaded: a worker runs without interruption until it awaits
  \<^verbatim>\<open>fn(item)\<close>, and when that promise settles it stores the outcome at the claimed index
  and, still without interruption, claims the next index or returns. The state between
  these atomic steps is the shared counter \<^verbatim>\<open>index\<close>, the array \<^verbatim>\<open>results\<close> (a hole reads as
  \<^verbatim>\<open>undefined\<close>, here \<open>None\<close>) and, for each worker, the index whose promise it awaits
  (\<open>None\<close> once it has returned). The operation \<open>fn\<close> gives the eventual outcome of the
  promise for an item: \<open>Inl\<close> when it rejects or throws. A schedule is the order in which
  the pending promises settle, as the list of the workers that resume.
\<close>

record 'r Pool =
  pool_index :: nat
  pool_results :: "'r option list"
  pool_workers :: "nat option list"

text \<open>\<^verbatim>\<open>try { results[i] = await fn(item) } catch { results[i] = undefined }\<close>\<close>

definition outcome :: "('a \<Rightarrow> string + 'r) \<Rightarrow> 'a \<Rightarrow> 'r option" where
  "outcome fn item = (case fn item of Inl err \<Rightarrow> None | Inr r \<Rightarrow> Some r)"

text \<open>A call of \<^verbatim>\<open>worker()\<close>, up to its first \<^verbatim>\<open>await\<close> (or to its return).\<close>

definition startWorker :: "nat \<Rightarrow> 'r Pool \<Rightarrow> 'r Pool" where
  "startWorker n st =
     (if pool_index st < n
      then st\<lparr>pool_index := pool_index st + 1,
              pool_workers := pool_workers st @ [Some (pool_index st)]\<rparr>
      else st\<lparr>pool_workers := pool_workers st @ [None]\<rparr>)"

text \<open>
  \<^verbatim>\<open>Array.from({ length: Math.min(concurrency, items.length) }, () => worker())\<close>: a negative
  length is an empty array.
\<close>

definition startPool :: "int \<Rightarrow> nat \<Rightarrow> 'r Pool" where
  "startPool concurrency n =
     (startWorker n ^^ nat (min concurrency (int n)))
       \<lparr>pool_index = 0, pool_results = replicate n None, pool_workers = []\<rparr>"

text \<open>The promise awaited by worker \<open>w\<close> settles.\<close>

definition settle :: "('a \<Rightarrow> string + 'r) \<Rightarrow> 'a list \<Rightarrow> 'r Pool \<Rightarrow> nat \<Rightarrow> 'r Pool" where
  "settle fn items st w =
     (if w < length (pool_workers st)
      then (case pool_workers st ! w of
              None \<Rightarrow> st
            | Some i \<Rightarrow>
                if pool_index st < length items
                then \<lparr>pool_index = pool_index st + 1,
                      pool_results = (pool_results st)[i := outcome fn (items ! i)],
                      pool_workers = (pool_workers st)[w := Some (pool_index st)]\<rparr>
                else \<lparr>pool_index = pool_index st,
                      pool_results = (pool_results st)[i := outcome fn (items ! i)],
                      pool_workers = (pool_workers st)[w := None]\<rparr>)
      else st)"

definition runSchedule ::
  "'a list \<Rightarrow> int \<Rightarrow> ('a \<Rightarrow> string + 'r) \<Rightarrow> nat list \<Rightarrow> 'r Pool" where
  "runSchedule items concurrency fn schedule =
     foldl (settle fn items) (startPool concurrency (length items)) schedule"

text \<open>\<^verbatim>\<open>Promise.all(workers)\<close> resolves when every worker has returned.\<close>

definition allReturned :: "'r Pool \<Rightarrow> bool" where
  "allReturned st = list_all (\<lambda>x. x = None) (pool_workers st)"

text \<open>
  The value of the returned promise after the settlements of a schedule: the array, or
  \<open>None\<close> while some worker has not returned.
\<close>

definition runWithBoundedConcurrency ::
  "'a list \<Rightarrow> int \<Rightarrow> ('a \<Rightarrow> string + 'r) \<Rightarrow> nat list \<Rightarrow> 'r option list option" where
  "runWithBoundedConcurrency items concurrency fn schedule =
     (if allReturned (runSchedule items concurrency fn schedule)
      then Some (pool_results (runSchedule items concurrency fn schedule)) else None)"

text \<open>A schedule of the runner names, at each step, a worker whose promise is pending.\<close>

fun pendingSchedule :: "('a \<Rightarrow> string + 'r) \<Rightarrow> 'a list \<Rightarrow> 'r Pool \<Rightarrow> nat list \<Rightarrow> bool" where
  "pendingSchedule fn items st [] = True"
| "pendingSchedule fn items st (w # ws) =
     (w < length (pool_workers st) \<and> pool_workers st ! w \<noteq> None \<and>
      pendingSchedule fn items (settle fn items st w) ws)"

section \<open>Facts about the store\<close>

lemma length_update_new:
  "map_of al k = None \<Longrightarrow> length (AList.update k v al) = Suc (length al)"
  by (induction al) auto

lemma update_new_append:
  "map_of al k = None \<Longrightarrow> AList.update k v al = al @ [(k, v)]"
  by (induction al) auto

lemma length_update_old:
  "map_of al k \<noteq> None \<Longrightarrow> length (AList.update k v al) = length al"
  by (induction al) auto

lemma length_delete_old:
  "map_of al k \<noteq> None \<Longrightarrow> length (AList.delete k al) < length al"
  by (induction al) (auto simp: le_imp_less_Suc AList.length_delete_le)

lemma map_of_delete_same: "map_of (AList.delete k al) k = None"
  by (simp add: AList.delete_conv')

lemma length_move_to_end:
  "map_of al k \<noteq> None \<Longrightarrow> length (AList.update k v (AList.delete k al)) \<le> length al"
  using length_delete_old [of al k] by (simp add: length_update_new map_of_delete_same)

lemma length_pruneExpired: "length (pruneExpired now store) \<le> length store"
  by (simp add: pruneExpired_def)

lemma distinct_pruneExpired:
  "distinct (map fst store) \<Longrightarrow> distinct (map fst (pruneExpired now store))"
  by (simp add: pruneExpired_def distinct_map_filter)

lemma evict_while_below:
  "0 < maxSize \<Longrightarrow> int (length (evict_while maxSize store)) < maxSize"
proof (induction maxSize store rule: evict_while.induct)
  case (1 maxSize store)
  show ?case
  proof (cases "maxSize \<le> int (length store)")
    case True
    with 1 show ?thesis by (subst evict_while.simps) simp
  next
    case False
    then show ?thesis by (subst evict_while.simps) simp
  qed
qed

lemma evict_while_length: "length (evict_while maxSize store) \<le> length store"
proof (induction maxSize store rule: evict_while.induct)
  case (1 maxSize store)
  show ?case
  proof (cases "0 < maxSize \<and> maxSize \<le> int (length store)")
    case True
    then have "length (evict_while maxSize (evictLru maxSize store))
                 \<le> length (evictLru maxSize store)"
      using 1 by simp
    moreover have "length (evictLru maxSize store) < length store"
      using True by (simp add: evictLru_shrinks)
    moreover have "evict_while maxSize store = evict_while maxSize (evictLru maxSize store)"
      using True by (subst evict_while.simps) simp
    ultimately show ?thesis by simp
  next
    case False
    then show ?thesis by (subst evict_while.simps) auto
  qed
qed

text \<open>With distinct keys, evicting the first key drops the head of the list.\<close>

lemma evictLru_distinct:
  "distinct (map fst store) \<Longrightarrow> 0 < maxSize \<Longrightarrow> maxSize \<le> int (length store) \<Longrightarrow>
     evictLru maxSize store = tl store"
  by (cases store) (auto simp: evictLru_def image_iff)

lemma evict_while_drop:
  "distinct (map fst store) \<Longrightarrow> 0 < maxSize \<Longrightarrow>
     evict_while maxSize store = drop (Suc (length store) - nat maxSize) store"
proof (induction maxSize store rule: evict_while.induct)
  case (1 maxSize store)
  show ?case
  proof (cases "maxSize \<le> int (length store)")
    case True
    then have ne: "store \<noteq> []" using 1(3) by auto
    have tl: "evictLru maxSize store = tl store"
      using 1 True by (simp add: evictLru_distinct)
    have "evict_while maxSize store = evict_while maxSize (tl store)"
      using True 1(3) tl by (subst evict_while.simps) simp
    also have "\<dots> = drop (Suc (length (tl store)) - nat maxSize) (tl store)"
      using 1 True tl by (simp add: distinct_tl map_tl)
    also have "\<dots> = drop (Suc (length store) - nat maxSize) store"
      using ne True 1(3) by (cases store) (auto simp: Suc_diff_le nat_le_iff)
    finally show ?thesis .
  next
    case False
    then show ?thesis by (subst evict_while.simps) simp
  qed
qed

lemma set_entry_length:
  assumes "0 < maxSize" "int (length store) \<le> maxSize"
  shows "int (length (set_entry maxSize now now' key v ttlMs store)) \<le> maxSize"
proof (cases "map_of (pruneExpired now store) key = None")
  case True
  let ?ev = "evict_while maxSize (pruneExpired now store)"
  let ?e = "\<lparr>entry_value = v, expiresAt = now' + ttlMs\<rparr>"
  have below: "int (length ?ev) < maxSize"
    using assms(1) by (rule evict_while_below)
  have "length (AList.update key ?e ?ev) \<le> Suc (length ?ev)"
    by (cases "map_of ?ev key = None") (simp_all add: length_update_new length_update_old)
  then have "int (length (AList.update key ?e ?ev)) \<le> maxSize"
    using below by linarith
  moreover have "set_entry maxSize now now' key v ttlMs store = AList.update key ?e ?ev"
    using True assms(1) by (simp add: set_entry_def Let_def)
  ultimately show ?thesis by simp
next
  case False
  let ?p = "pruneExpired now store"
  let ?e = "\<lparr>entry_value = v, expiresAt = now' + ttlMs\<rparr>"
  have "length (AList.update key ?e (AList.delete key ?p)) \<le> length ?p"
    using False by (rule length_move_to_end)
  then have "int (length (AList.update key ?e (AList.delete key ?p))) \<le> maxSize"
    using assms(2) length_pruneExpired [of now store] by linarith
  moreover have "set_entry maxSize now now' key v ttlMs store
                   = AList.update key ?e (AList.delete key ?p)"
    using False assms(1) by (auto simp: set_entry_def Let_def)
  ultimately show ?thesis by simp
qed

lemma get_entry_length:
  "length (snd (get_entry maxSize now key store)) \<le> length store"
  by (auto simp: get_entry_def AList.length_delete_le length_move_to_end split: option.splits)

lemma apply_cache_op_length:
  "0 < maxSize \<Longrightarrow> int (length store) \<le> maxSize \<Longrightarrow>
     int (length (apply_cache_op maxSize store op)) \<le> maxSize"
proof (cases op)
  case (Get now key)
  assume "int (length store) \<le> maxSize"
  with get_entry_length [of maxSize now key store] Get show ?thesis by simp
next
  case (Set now now' key v ttlMs)
  assume "0 < maxSize" "int (length store) \<le> maxSize"
  with Set show ?thesis by (simp add: set_entry_length)
qed

lemma foldl_cache_ops_length:
  "0 < maxSize \<Longrightarrow> int (length store) \<le> maxSize \<Longrightarrow>
     int (length (foldl (apply_cache_op maxSize) store ops)) \<le> maxSize"
  by (induction ops arbitrary: store) (simp_all add: apply_cache_op_length)

lemma map_of_set_entry:
  "map_of (set_entry maxSize now now' key v ttlMs store) key
     = Some \<lparr>entry_value = v, expiresAt = now' + ttlMs\<rparr>"
  by (simp add: set_entry_def Let_def AList.update_conv')

lemma set_entry_new:
  assumes "distinct (map fst store)" "0 < maxSize" "map_of (pruneExpired now store) key = None"
  shows "set_entry maxSize now now' key v ttlMs store =
           drop (Suc (length (pruneExpired now store)) - nat maxSize) (pruneExpired now store)
             @ [(key, \<lparr>entry_value = v, expiresAt = now' + ttlMs\<rparr>)]"
proof -
  let ?p = "pruneExpired now store"
  let ?d = "drop (Suc (length ?p) - nat maxSize) ?p"
  have ev: "evict_while maxSize ?p = ?d"
    using assms(1,2) by (simp add: evict_while_drop distinct_pruneExpired)
  have "map_of ?d key = None"
    using assms(3) by (auto simp: map_of_eq_None_iff dest: in_set_dropD)
  then show ?thesis
    using assms(2,3) ev by (simp add: set_entry_def Let_def update_new_append)
qed

lemma set_entry_distinct:
  assumes "distinct (map fst store)"
  shows "distinct (map fst (set_entry maxSize now now' key v ttlMs store))"
proof -
  have "distinct (map fst (evict_while maxSize s))" if "distinct (map fst s)" for s :: "'a store"
  proof (cases "0 < maxSize")
    case True
    with that show ?thesis by (simp add: evict_while_drop distinct_drop flip: drop_map)
  next
    case False
    then show ?thesis using that by (subst evict_while.simps) simp
  qed
  with assms show ?thesis
    by (simp add: set_entry_def Let_def AList.distinct_update AList.distinct_delete
        distinct_pruneExpired)
qed

lemma get_entry_distinct:
  "distinct (map fst store) \<Longrightarrow> distinct (map fst (snd (get_entry maxSize now key store)))"
  by (simp add: get_entry_def AList.distinct_update AList.distinct_delete split: option.splits)

text \<open>A \<^verbatim>\<open>set\<close> keeps, besides its own key, only entries that were there and are live.\<close>

lemma set_update_subset: "set (AList.update k v al) \<subseteq> insert (k, v) (set al)"
  by (induction al) auto

lemma set_delete_subset: "set (AList.delete k al) \<subseteq> set al"
  by (auto simp: AList.delete_eq)

lemma set_evictLru_subset: "set (evictLru maxSize store) \<subseteq> set store"
proof (cases store)
  case Nil
  then show ?thesis by (simp add: evictLru_def)
next
  case (Cons kv rest)
  have "set (AList.delete (fst kv) (kv # rest)) \<subseteq> set (kv # rest)" by (rule set_delete_subset)
  with Cons show ?thesis by (cases kv) (simp add: evictLru_def)
qed

lemma set_evict_while_subset: "set (evict_while maxSize store) \<subseteq> set store"
proof (induction maxSize store rule: evict_while.induct)
  case (1 maxSize store)
  show ?case
  proof (cases "0 < maxSize \<and> maxSize \<le> int (length store)")
    case True
    then have "evict_while maxSize store = evict_while maxSize (evictLru maxSize store)"
      by (subst evict_while.simps) simp
    with 1 True set_evictLru_subset [of maxSize store] show ?thesis by auto
  next
    case False
    then show ?thesis by (subst evict_while.simps) auto
  qed
qed

lemma set_entry_swept:
  assumes "(k, e) \<in> set (set_entry maxSize now now' key v ttlMs store)" "k \<noteq> key"
  shows "(k, e) \<in> set store \<and> now \<le> expiresAt e"
proof -
  let ?p = "pruneExpired now store"
  let ?ev = "if map_of ?p key = None \<and> maxSize > 0 then evict_while maxSize ?p else ?p"
  let ?rm = "if maxSize > 0 \<and> map_of ?p key \<noteq> None then AList.delete key ?ev else ?ev"
  have "set_entry maxSize now now' key v ttlMs store
          = AList.update key \<lparr>entry_value = v, expiresAt = now' + ttlMs\<rparr> ?rm"
    by (simp add: set_entry_def Let_def)
  with assms have "(k, e) \<in> set ?rm" using set_update_subset by fastforce
  then have "(k, e) \<in> set ?ev" using set_delete_subset by (fastforce split: if_splits)
  then have "(k, e) \<in> set ?p" using set_evict_while_subset by (fastforce split: if_splits)
  then show ?thesis by (auto simp: pruneExpired_def)
qed

section \<open>Facts about the aggregation\<close>

text \<open>
  The two nested loops visit the entries of all events in order, each with its index in its
  own event; the record of one key depends only on the entries that carry that key.
\<close>

definition indexedEntries :: "EventStandings list \<Rightarrow> (nat \<times> StandingEntry) list" where
  "indexedEntries eventStandings = concat (map (\<lambda>es. enumerate 0 (standings es)) eventStandings)"

definition stepRec :: "AggRec option \<Rightarrow> nat \<times> StandingEntry \<Rightarrow> AggRec" where
  "stepRec old ie =
     (let dn = standingPlayerDisplayName (snd ie);
          hasUes = (Option.bind (user_event_status (snd ie)) ues_best_identifier \<noteq> None);
          wl = standingWinsLosses (snd ie);
          rec0 = (case old of
                    None \<Rightarrow> \<lparr>displayName = dn, hasUserEventStatus = hasUes, rec_wins = 0,
                              rec_losses = 0, rec_eventsPlayed = 0, rec_placements = []\<rparr>
                  | Some r \<Rightarrow>
                      if hasUes \<and> \<not> hasUserEventStatus r
                      then r\<lparr>displayName := dn, hasUserEventStatus := True\<rparr> else r)
      in rec0\<lparr>rec_wins := rec_wins rec0 + fst wl, rec_losses := rec_losses rec0 + snd wl,
              rec_eventsPlayed := rec_eventsPlayed rec0 + 1,
              rec_placements := rec_placements rec0 @ [standingPlacement (snd ie) (fst ie)]\<rparr>)"

definition entriesOf :: "string \<Rightarrow> (nat \<times> StandingEntry) list \<Rightarrow> (nat \<times> StandingEntry) list" where
  "entriesOf k ies = filter (\<lambda>ie. standingPlayerKey (snd ie) = k) ies"

definition foldRec :: "AggRec option \<Rightarrow> (nat \<times> StandingEntry) list \<Rightarrow> AggRec option" where
  "foldRec old ies = foldl (\<lambda>r ie. Some (stepRec r ie)) old ies"

lemma accumulateEntry_stepRec:
  "accumulateEntry agg ie =
     (if standingPlayerKey (snd ie) = unknownPlayer then agg
      else AList.update (standingPlayerKey (snd ie))
             (stepRec (map_of agg (standingPlayerKey (snd ie))) ie) agg)"
  by (simp add: accumulateEntry_def stepRec_def Let_def)

lemma foldl_accumulate_events:
  "foldl (\<lambda>agg es. accumulateStandings agg (standings es)) agg eventStandings
     = foldl accumulateEntry agg (indexedEntries eventStandings)"
  by (induction eventStandings arbitrary: agg)
     (simp_all add: indexedEntries_def accumulateStandings_def)

lemma accumulateEvents_indexed:
  "accumulateEvents eventStandings = foldl accumulateEntry [] (indexedEntries eventStandings)"
  by (simp add: accumulateEvents_def foldl_accumulate_events)

lemma map_of_accumulateEntry:
  "k \<noteq> unknownPlayer \<Longrightarrow>
     map_of (accumulateEntry agg ie) k =
       (if standingPlayerKey (snd ie) = k then Some (stepRec (map_of agg k) ie) else map_of agg k)"
  by (simp add: accumulateEntry_stepRec AList.update_conv')

lemma map_of_accumulate:
  "k \<noteq> unknownPlayer \<Longrightarrow>
     map_of (foldl accumulateEntry agg ies) k = foldRec (map_of agg k) (entriesOf k ies)"
  by (induction ies arbitrary: agg)
     (simp_all add: map_of_accumulateEntry entriesOf_def foldRec_def)

lemma map_of_accumulate_unknown:
  "map_of agg unknownPlayer = None \<Longrightarrow> map_of (foldl accumulateEntry agg ies) unknownPlayer = None"
  by (induction ies arbitrary: agg) (simp_all add: accumulateEntry_stepRec AList.update_conv')

lemma keys_accumulate:
  "fst ` set (foldl accumulateEntry agg ies) =
     fst ` set agg \<union> (standingPlayerKey ` snd ` set ies - {unknownPlayer})"
  by (induction ies arbitrary: agg) (auto simp: accumulateEntry_stepRec AList.dom_update)

lemma distinct_accumulate:
  "distinct (map fst agg) \<Longrightarrow> distinct (map fst (foldl accumulateEntry agg ies))"
  by (induction ies arbitrary: agg) (simp_all add: accumulateEntry_stepRec AList.distinct_update)

definition entryWins :: "nat \<times> StandingEntry \<Rightarrow> int" where
  "entryWins ie = fst (standingWinsLosses (snd ie))"
definition entryLosses :: "nat \<times> StandingEntry \<Rightarrow> int" where
  "entryLosses ie = snd (standingWinsLosses (snd ie))"
definition entryPlacement :: "nat \<times> StandingEntry \<Rightarrow> int" where
  "entryPlacement ie = standingPlacement (snd ie) (fst ie)"

lemma stepRec_fields:
  "rec_wins (stepRec (Some r) ie) = rec_wins r + entryWins ie"
  "rec_losses (stepRec (Some r) ie) = rec_losses r + entryLosses ie"
  "rec_eventsPlayed (stepRec (Some r) ie) = rec_eventsPlayed r + 1"
  "rec_placements (stepRec (Some r) ie) = rec_placements r @ [entryPlacement ie]"
  "rec_wins (stepRec None ie) = entryWins ie"
  "rec_losses (stepRec None ie) = entryLosses ie"
  "rec_eventsPlayed (stepRec None ie) = 1"
  "rec_placements (stepRec None ie) = [entryPlacement ie]"
  by (simp_all add: stepRec_def Let_def entryWins_def entryLosses_def entryPlacement_def)

lemma foldRec_Some:
  "\<exists>r'. foldRec (Some r) ies = Some r' \<and>
     rec_wins r' = rec_wins r + sum_list (map entryWins ies) \<and>
     rec_losses r' = rec_losses r + sum_list (map entryLosses ies) \<and>
     rec_eventsPlayed r' = rec_eventsPlayed r + int (length ies) \<and>
     rec_placements r' = rec_placements r @ map entryPlacement ies"
proof (induction ies arbitrary: r)
  case Nil
  then show ?case by (simp add: foldRec_def)
next
  case (Cons ie ies)
  from Cons [of "stepRec (Some r) ie"] show ?case
    by (auto simp: foldRec_def stepRec_fields)
qed

lemma foldRec_None:
  "ies \<noteq> [] \<Longrightarrow>
   \<exists>r'. foldRec None ies = Some r' \<and>
     rec_wins r' = sum_list (map entryWins ies) \<and>
     rec_losses r' = sum_list (map entryLosses ies) \<and>
     rec_eventsPlayed r' = int (length ies) \<and>
     rec_placements r' = map entryPlacement ies"
proof (cases ies)
  case Nil
  assume "ies \<noteq> []"
  with Nil show ?thesis by simp
next
  case (Cons ie rest)
  from foldRec_Some [of "stepRec None ie" rest] Cons show ?thesis
    by (auto simp: foldRec_def stepRec_fields)
qed

lemma foldRec_None_Nil: "foldRec None [] = None"
  by (simp add: foldRec_def)

subsection \<open>Parsing win-loss records\<close>













subsection \<open>Lookups in the accumulated map, and the output list\<close>

lemma in_indexedEntries:
  assumes "j < length eventStandings" "i < length (standings (eventStandings ! j))"
  shows "(i, standings (eventStandings ! j) ! i) \<in> set (indexedEntries eventStandings)"
proof -
  have "(i, standings (eventStandings ! j) ! i) \<in> set (enumerate 0 (standings (eventStandings ! j)))"
    using assms(2) by (simp add: in_set_enumerate_eq)
  moreover have "eventStandings ! j \<in> set eventStandings" using assms(1) by simp
  ultimately show ?thesis unfolding indexedEntries_def by auto
qed

lemma accumulateEvents_lookup:
  "k \<noteq> unknownPlayer \<Longrightarrow>
     map_of (accumulateEvents eventStandings) k = foldRec None (entriesOf k (indexedEntries eventStandings))"
  by (simp add: accumulateEvents_indexed map_of_accumulate)

lemma standingPlacement_default:
  "rank entry = None \<Longrightarrow> placement entry = None \<Longrightarrow> standingPlacement entry i = int i + 1"
  by (simp add: standingPlacement_def)

text \<open>Values for the examples: an entry and an event with no optional field present.\<close>

definition noEntry :: StandingEntry where
  "noEntry = \<lparr>rank = None, placement = None, player = None, player_name = None, username = None,
     display_name = None, wins = None, losses = None, record_field = None, match_record = None,
     user_event_status = None\<rparr>"

definition noEvent :: Event where
  "noEvent = \<lparr>event_id = 0, event_name = [], start_datetime = [], display_status = None,
     event_lifecycle_status = None, event_store = None, tournament_phases = None\<rparr>"











subsection \<open>Reordering the events\<close>

text \<open>
  The totals of a record (everything but the display name and the order of its placements)
  depend only on the multiset of the entries that carry its key.
\<close>

definition recCore :: "AggRec \<Rightarrow> int \<times> int \<times> int \<times> int \<times> int" where
  "recCore r = (rec_wins r, rec_losses r, rec_eventsPlayed r, Min (set (rec_placements r)),
                int (length (filter (\<lambda>p. p = 1) (rec_placements r))))"

definition statsCore :: "PlayerStats \<Rightarrow> int \<times> int \<times> int \<times> int \<times> int" where
  "statsCore p = (totalWins p, totalLosses p, eventsPlayed p, bestPlacement p, firstPlaceFinishes p)"

lemma statsCore_toPlayerStats: "statsCore (toPlayerStats r) = recCore r"
  by (simp add: statsCore_def toPlayerStats_def recCore_def)

lemma mset_indexedEntries:
  assumes "mset es = mset es'"
  shows "mset (indexedEntries es) = mset (indexedEntries es')"
proof -
  have "mset (indexedEntries xs)
          = sum_mset (image_mset (\<lambda>e. mset (enumerate 0 (standings e))) (mset xs))" for xs
    by (simp add: indexedEntries_def mset_concat comp_def flip: sum_mset_sum_list)
  with assms show ?thesis by simp
qed

lemma mset_entriesOf:
  "mset ies = mset ies' \<Longrightarrow> mset (entriesOf k ies) = mset (entriesOf k ies')"
  by (simp add: entriesOf_def)

lemma sum_list_mset_cong:
  "mset xs = mset ys \<Longrightarrow> sum_list (map f xs) = (sum_list (map f ys) :: int)"
  by (metis mset_map sum_mset_sum_list)

lemma foldRec_core_cong:
  assumes "mset ies = mset ies'"
  shows "map_option recCore (foldRec None ies) = map_option recCore (foldRec None ies')"
proof (cases "ies = []")
  case True
  with assms have "ies' = []" by (metis mset_zero_iff)
  with True show ?thesis by simp
next
  case False
  with assms have ne': "ies' \<noteq> []" by (metis mset_zero_iff)
  obtain r where r: "foldRec None ies = Some r" "rec_wins r = sum_list (map entryWins ies)"
      "rec_losses r = sum_list (map entryLosses ies)" "rec_eventsPlayed r = int (length ies)"
      "rec_placements r = map entryPlacement ies"
    using foldRec_None [OF False] by blast
  obtain r' where r': "foldRec None ies' = Some r'" "rec_wins r' = sum_list (map entryWins ies')"
      "rec_losses r' = sum_list (map entryLosses ies')" "rec_eventsPlayed r' = int (length ies')"
      "rec_placements r' = map entryPlacement ies'"
    using foldRec_None [OF ne'] by blast
  have pl: "mset (rec_placements r) = mset (rec_placements r')"
    using assms r(5) r'(5) by simp
  have "set (rec_placements r) = set (rec_placements r')"
    using pl by (rule mset_eq_setD)
  moreover have "length (filter (\<lambda>p. p = 1) (rec_placements r))
                   = length (filter (\<lambda>p. p = 1) (rec_placements r'))"
    using pl by (metis mset_filter size_mset)
  moreover have "length ies = length ies'" using assms by (rule mset_eq_length)
  ultimately have "recCore r = recCore r'"
    using r r' sum_list_mset_cong [OF assms] by (simp add: recCore_def)
  with r(1) r'(1) show ?thesis by simp
qed

lemma accumulateEvents_unknown: "map_of (accumulateEvents es) unknownPlayer = None"
  by (simp add: accumulateEvents_indexed map_of_accumulate_unknown)

lemma accumulateEvents_nonempty:
  assumes "map_of (accumulateEvents eventStandings) k = Some r"
  shows "rec_placements r \<noteq> []"
proof -
  let ?ies = "entriesOf k (indexedEntries eventStandings)"
  have k: "k \<noteq> unknownPlayer" using assms accumulateEvents_unknown by auto
  then have r: "foldRec None ?ies = Some r" using assms by (simp add: accumulateEvents_lookup)
  then have ne: "?ies \<noteq> []" using foldRec_None_Nil by auto
  from foldRec_None [OF ne] r have "rec_placements r = map entryPlacement ?ies" by auto
  with ne show ?thesis by simp
qed

lemma accumulateEvents_core_cong:
  assumes "mset es = mset es'"
  shows "map_option recCore (map_of (accumulateEvents es) k)
           = map_option recCore (map_of (accumulateEvents es') k)"
proof (cases "k = unknownPlayer")
  case True
  then show ?thesis by (simp add: accumulateEvents_unknown)
next
  case False
  then show ?thesis
    using foldRec_core_cong [OF mset_entriesOf [OF mset_indexedEntries [OF assms]], of k]
    by (simp add: accumulateEvents_lookup)
qed

lemma accumulateEvents_distinct: "distinct (map fst (accumulateEvents es))"
  by (simp add: accumulateEvents_indexed distinct_accumulate)

lemma accumulateEvents_keys:
  "mset es = mset es' \<Longrightarrow> set (map fst (accumulateEvents es)) = set (map fst (accumulateEvents es'))"
  using mset_eq_setD [OF mset_indexedEntries, of es es']
  by (simp add: accumulateEvents_indexed keys_accumulate)

lemma alist_values:
  "distinct (map fst al) \<Longrightarrow> map snd al = map (\<lambda>k. the (map_of al k)) (map fst al)"
proof (induction al)
  case Nil
  then show ?case by simp
next
  case (Cons kv al)
  then have notin: "fst kv \<notin> set (map fst al)" and d: "distinct (map fst al)" by simp_all
  have "map (\<lambda>k. the (map_of (kv # al) k)) (map fst al) = map (\<lambda>k. the (map_of al k)) (map fst al)"
    using notin by (intro map_cong refl) (cases kv, force)
  with Cons.IH [OF d] show ?case by (cases kv) simp
qed

lemma accumulateEvents_core_mset:
  assumes "mset es = mset es'"
  shows "mset (map recCore (map snd (accumulateEvents es)))
           = mset (map recCore (map snd (accumulateEvents es')))"
proof -
  let ?A = "accumulateEvents es" and ?A' = "accumulateEvents es'"
  have keys: "mset (map fst ?A) = mset (map fst ?A')"
    using accumulateEvents_keys [OF assms]
      set_eq_iff_mset_eq_distinct [OF accumulateEvents_distinct accumulateEvents_distinct, of es es']
    by blast
  have pt: "recCore (the (map_of ?A k)) = recCore (the (map_of ?A' k))" if "k \<in> set (map fst ?A)" for k
  proof -
    from that have "map_of ?A k \<noteq> None" by (simp add: map_of_eq_None_iff)
    moreover from that accumulateEvents_keys [OF assms] have "map_of ?A' k \<noteq> None"
      by (simp add: map_of_eq_None_iff)
    ultimately show ?thesis using accumulateEvents_core_cong [OF assms, of k] by auto
  qed
  have vals: "map recCore (map snd (accumulateEvents xs))
                = map (\<lambda>k. recCore (the (map_of (accumulateEvents xs) k)))
                    (map fst (accumulateEvents xs))" for xs
    using arg_cong [OF alist_values [OF accumulateEvents_distinct, of xs], of "map recCore"]
    by (simp add: comp_def)
  let ?f = "\<lambda>k. recCore (the (map_of ?A k))" and ?f' = "\<lambda>k. recCore (the (map_of ?A' k))"
  have "mset (map recCore (map snd ?A)) = mset (map ?f (map fst ?A))"
    by (simp only: vals)
  also have "map ?f (map fst ?A) = map ?f' (map fst ?A)"
    by (intro map_cong refl) (simp add: pt)
  also have "mset (map ?f' (map fst ?A)) = mset (map ?f' (map fst ?A'))"
    using keys by (metis mset_map)
  also have "\<dots> = mset (map recCore (map snd ?A'))"
    by (simp only: vals)
  finally show ?thesis .
qed

subsection \<open>The comparators as lexicographic keys\<close>

text \<open>
  Each comparator of \<^verbatim>\<open>sortPlayers\<close> is the lexicographic order of a tuple of fields, so the
  stable insertion sort is \<open>sort_key\<close> of that tuple, and the sequence of keys of the sorted
  list depends only on the multiset of keys.
\<close>

lemma insertBy_insort_key:
  fixes key :: "'a \<Rightarrow> 'k::linorder"
  assumes "\<And>a b. cmp a b \<le> 0 \<longleftrightarrow> key a \<le> key b"
  shows "insertBy cmp x ys = insort_key key x ys"
  by (induction ys) (simp_all add: assms)

lemma stableSort_sort_key:
  fixes key :: "'a \<Rightarrow> 'k::linorder"
  assumes "\<And>a b. cmp a b \<le> 0 \<longleftrightarrow> key a \<le> key b"
  shows "stableSort cmp xs = sort_key key xs"
  by (induction xs) (simp_all add: stableSort_def insertBy_insort_key [of cmp key, OF assms])

lemma map_sort_key: "map f (sort_key f xs) = sort (map f xs)"
  by (rule properties_for_sort [symmetric]) simp_all

lemma sort_mset_cong: "mset xs = mset ys \<Longrightarrow> sort xs = sort ys"
  by (metis sorted_list_of_multiset_mset)

lemma stableSort_projection:
  fixes key :: "'a \<Rightarrow> 'k::linorder"
  assumes cmp: "\<And>a b. cmp a b \<le> 0 \<longleftrightarrow> key a \<le> key b"
    and key: "\<And>p. key p = g (core p)"
    and proj: "\<And>p. proj p = h (key p)"
    and ms: "mset (map core xs) = mset (map core ys)"
  shows "map proj (stableSort cmp xs) = map proj (stableSort cmp ys)"
proof -
  have k: "map key zs = map g (map core zs)" for zs by (simp add: key)
  have "mset (map key xs) = mset (map key ys)"
    unfolding k using ms by (metis mset_map)
  then have s: "sort (map key xs) = sort (map key ys)" by (rule sort_mset_cong)
  have "map proj (stableSort cmp zs) = map h (sort (map key zs))" for zs
  proof -
    have "map proj (stableSort cmp zs) = map h (map key (sort_key key zs))"
      by (simp add: stableSort_sort_key [of cmp key, OF cmp] proj)
    then show ?thesis by (simp only: map_sort_key)
  qed
  with s show ?thesis by simp
qed

definition wlb :: "PlayerStats \<Rightarrow> int \<times> int \<times> int" where
  "wlb p = (totalWins p, totalLosses p, bestPlacement p)"

lemma cmp_total_wins_key:
  "cmp_total_wins a b \<le> 0 \<longleftrightarrow>
      (- totalWins a, totalLosses a, bestPlacement a) \<le> (- totalWins b, totalLosses b, bestPlacement b)"
  by (auto simp: cmp_total_wins_def)

lemma cmp_events_played_key:
  "cmp_events_played a b \<le> 0 \<longleftrightarrow>
      (- eventsPlayed a, - totalWins a, totalLosses a, bestPlacement a)
        \<le> (- eventsPlayed b, - totalWins b, totalLosses b, bestPlacement b)"
  by (auto simp: cmp_events_played_def)

lemma cmp_win_rate_key:
  "cmp_win_rate a b \<le> 0 \<longleftrightarrow>
      (- winRate a, - totalWins a, totalLosses a, bestPlacement a)
        \<le> (- winRate b, - totalWins b, totalLosses b, bestPlacement b)"
  by (auto simp: cmp_win_rate_def)

lemma cmp_best_placement_key:
  "cmp_best_placement a b \<le> 0 \<longleftrightarrow>
      (bestPlacement a, - totalWins a, totalLosses a) \<le> (bestPlacement b, - totalWins b, totalLosses b)"
  by (auto simp: cmp_best_placement_def)

lemma stableSort_invariant:
  fixes key :: "'a \<Rightarrow> 'k::linorder"
  assumes cmp: "\<And>a b. cmp a b \<le> 0 \<longleftrightarrow> key a \<le> key b"
    and key: "\<And>p q. core p = core q \<Longrightarrow> key p = key q"
    and proj: "\<And>p q. key p = key q \<Longrightarrow> proj p = proj q"
    and ms: "mset (map core xs) = mset (map core ys)"
  shows "map proj (stableSort cmp xs) = map proj (stableSort cmp ys)"
proof -
  define g where "g c = key (SOME p. core p = c)" for c
  define h where "h k = proj (SOME p. key p = k)" for k
  have g: "key p = g (core p)" for p
    unfolding g_def by (rule key) (rule someI [of "\<lambda>q. core q = core p", OF refl, symmetric])
  have h: "proj p = h (key p)" for p
    unfolding h_def by (rule proj) (rule someI [of "\<lambda>q. key q = key p", OF refl, symmetric])
  show ?thesis
    using cmp g h ms by (rule stableSort_projection)
qed

lemma sortPlayers_total_wins:
  assumes "mset (map statsCore xs) = mset (map statsCore ys)"
  shows "map wlb (stableSort cmp_total_wins xs) = map wlb (stableSort cmp_total_wins ys)"
proof (rule stableSort_invariant [where core = statsCore, OF cmp_total_wins_key _ _ assms])
  show "statsCore p = statsCore q \<Longrightarrow>
      (- totalWins p, totalLosses p, bestPlacement p) = (- totalWins q, totalLosses q, bestPlacement q)"
    for p q by (simp add: statsCore_def)
  show "(- totalWins p, totalLosses p, bestPlacement p) = (- totalWins q, totalLosses q, bestPlacement q)
      \<Longrightarrow> wlb p = wlb q" for p q by (simp add: wlb_def)
qed

lemma sortPlayers_events_played:
  assumes "mset (map statsCore xs) = mset (map statsCore ys)"
  shows "map wlb (stableSort cmp_events_played xs) = map wlb (stableSort cmp_events_played ys)"
proof (rule stableSort_invariant [where core = statsCore, OF cmp_events_played_key _ _ assms])
  show "statsCore p = statsCore q \<Longrightarrow>
      (- eventsPlayed p, - totalWins p, totalLosses p, bestPlacement p)
        = (- eventsPlayed q, - totalWins q, totalLosses q, bestPlacement q)"
    for p q by (simp add: statsCore_def)
  show "(- eventsPlayed p, - totalWins p, totalLosses p, bestPlacement p)
        = (- eventsPlayed q, - totalWins q, totalLosses q, bestPlacement q)
      \<Longrightarrow> wlb p = wlb q" for p q by (simp add: wlb_def)
qed

lemma sortPlayers_win_rate:
  assumes "mset (map statsCore xs) = mset (map statsCore ys)"
  shows "map wlb (stableSort cmp_win_rate xs) = map wlb (stableSort cmp_win_rate ys)"
proof (rule stableSort_invariant [where core = statsCore, OF cmp_win_rate_key _ _ assms])
  show "statsCore p = statsCore q \<Longrightarrow>
      (- winRate p, - totalWins p, totalLosses p, bestPlacement p)
        = (- winRate q, - totalWins q, totalLosses q, bestPlacement q)"
    for p q by (simp add: statsCore_def winRate_def)
  show "(- winRate p, - totalWins p, totalLosses p, bestPlacement p)
        = (- winRate q, - totalWins q, totalLosses q, bestPlacement q)
      \<Longrightarrow> wlb p = wlb q" for p q by (simp add: wlb_def)
qed

lemma sortPlayers_best_placement:
  assumes "mset (map statsCore xs) = mset (map statsCore ys)"
  shows "map wlb (stableSort cmp_best_placement xs) = map wlb (stableSort cmp_best_placement ys)"
proof (rule stableSort_invariant [where core = statsCore, OF cmp_best_placement_key _ _ assms])
  show "statsCore p = statsCore q \<Longrightarrow>
      (bestPlacement p, - totalWins p, totalLosses p) = (bestPlacement q, - totalWins q, totalLosses q)"
    for p q by (simp add: statsCore_def)
  show "(bestPlacement p, - totalWins p, totalLosses p) = (bestPlacement q, - totalWins q, totalLosses q)
      \<Longrightarrow> wlb p = wlb q" for p q by (simp add: wlb_def)
qed

lemma sortPlayers_wlb:
  assumes "mset (map statsCore xs) = mset (map statsCore ys)"
  shows "map wlb (sortPlayers xs sb) = map wlb (sortPlayers ys sb)"
proof (cases sb)
  case total_wins
  then show ?thesis using sortPlayers_total_wins [OF assms] by (simp add: sortPlayers_def)
next
  case events_played
  then show ?thesis using sortPlayers_events_played [OF assms] by (simp add: sortPlayers_def)
next
  case win_rate
  then show ?thesis using sortPlayers_win_rate [OF assms] by (simp add: sortPlayers_def)
next
  case best_placement
  then show ?thesis using sortPlayers_best_placement [OF assms] by (simp add: sortPlayers_def)
qed

lemma map_slice0: "map f (slice0 xs limit) = slice0 (map f xs) limit"
  by (simp add: slice0_def take_map)

lemma players_statsCore:
  "map statsCore (map toPlayerStats (filter (\<lambda>r. rec_eventsPlayed r \<ge> minEvents) rs))
     = filter (\<lambda>c. fst (snd (snd c)) \<ge> minEvents) (map recCore rs)"
proof (induction rs)
  case Nil
  then show ?case by simp
next
  case (Cons r rs)
  have "fst (snd (snd (recCore r))) = rec_eventsPlayed r" by (simp add: recCore_def)
  with Cons show ?case by (simp add: statsCore_toPlayerStats)
qed

lemma players_core_mset:
  assumes "mset es = mset es'"
  shows "mset (map statsCore (map toPlayerStats
            (filter (\<lambda>r. rec_eventsPlayed r \<ge> minEvents) (map snd (accumulateEvents es)))))
       = mset (map statsCore (map toPlayerStats
            (filter (\<lambda>r. rec_eventsPlayed r \<ge> minEvents) (map snd (accumulateEvents es')))))"
  unfolding players_statsCore mset_filter
  using accumulateEvents_core_mset [OF assms] by (rule arg_cong)

lemma aggregate_wlb:
  assumes "mset es = mset es'"
  shows "map wlb (aggregateStandingsToPlayers es minEvents sb limit)
           = map wlb (aggregateStandingsToPlayers es' minEvents sb limit)"
  using sortPlayers_wlb [OF players_core_mset [OF assms], of minEvents sb]
  by (simp add: aggregateStandingsToPlayers_def Let_def map_slice0)

subsection \<open>Date arithmetic and paging\<close>

lemma numberToString_366: "numberToString 366 = ''366''"
  by (simp add: numberToString_def natToString.simps)

lemma roundDiv_day_span:
  "roundDiv (86400000 * de + 86399000 - 86400000 * ds) (24 * 60 * 60 * 1000) = de - ds + 1"
proof -
  have "2 * (86400000 * de + 86399000 - 86400000 * ds) + 24 * 60 * 60 * 1000
          = (de - ds + 1) * 172800000 + 86398000"
    by (simp add: algebra_simps)
  then have "roundDiv (86400000 * de + 86399000 - 86400000 * ds) (24 * 60 * 60 * 1000)
          = ((de - ds + 1) * 172800000 + 86398000) div 172800000"
    by (simp add: roundDiv_def)
  also have "\<dots> = de - ds + 1"
    by (subst div_mult_self3) simp_all
  finally show ?thesis .
qed

lemma collectEventsByCoords_empty_page:
  "search page = Inr result \<Longrightarrow> result_events result = [] \<Longrightarrow>
     collectEventsByCoords search page allEvents = Some (Inr allEvents)"
  by (subst collectEventsByCoords.simps) (simp add: eventRefs_def)

lemma collectEventsByStore_empty_page:
  "search label page = Inr result \<Longrightarrow> result_events result = [] \<Longrightarrow>
     collectEventsByStore search page allEvents label = Some (Inr (allEvents, label))"
  by (subst collectEventsByStore.simps) (simp add: eventRefs_def resolveStoreLabel_def)

subsection \<open>The resolver's sort and walk\<close>






section \<open>Facts about the runner\<close>

text \<open>
  The invariant of the pool: every awaited index is below the counter and awaited by one
  worker only; an index below the counter that nobody awaits holds its outcome, every other
  index is still a hole; and a worker returns only when the counter has reached the end.
  The number of settlements still to come is the number of unclaimed items plus the number
  of awaiting workers.
\<close>

definition poolInv :: "('a \<Rightarrow> string + 'r) \<Rightarrow> 'a list \<Rightarrow> 'r Pool \<Rightarrow> bool" where
  "poolInv fn items st \<longleftrightarrow>
     length (pool_results st) = length items \<and>
     pool_index st \<le> length items \<and>
     (\<forall>w i. w < length (pool_workers st) \<longrightarrow> pool_workers st ! w = Some i \<longrightarrow> i < pool_index st) \<and>
     (\<forall>w w' i. w < length (pool_workers st) \<longrightarrow> w' < length (pool_workers st) \<longrightarrow>
        pool_workers st ! w = Some i \<longrightarrow> pool_workers st ! w' = Some i \<longrightarrow> w = w') \<and>
     (\<forall>j. j < length items \<longrightarrow>
        pool_results st ! j =
          (if j < pool_index st \<and> (\<forall>w. w < length (pool_workers st) \<longrightarrow> pool_workers st ! w \<noteq> Some j)
           then outcome fn (items ! j) else None)) \<and>
     (\<forall>w. w < length (pool_workers st) \<longrightarrow> pool_workers st ! w = None \<longrightarrow>
        pool_index st = length items)"

definition remaining :: "nat \<Rightarrow> 'r Pool \<Rightarrow> nat" where
  "remaining n st = (n - pool_index st) + length (filter (\<lambda>x. x \<noteq> None) (pool_workers st))"

lemma startWorkers:
  "k \<le> n \<Longrightarrow>
     (startWorker n ^^ k) \<lparr>pool_index = 0, pool_results = rs, pool_workers = []\<rparr>
       = \<lparr>pool_index = k, pool_results = rs, pool_workers = map Some [0..<k]\<rparr>"
  by (induction k) (simp_all add: startWorker_def)

lemma startPool_eq:
  "startPool concurrency n =
     \<lparr>pool_index = nat (min concurrency (int n)), pool_results = replicate n None,
      pool_workers = map Some [0..<nat (min concurrency (int n))]\<rparr>"
  unfolding startPool_def by (rule startWorkers) simp

lemma poolInv_start: "poolInv fn items (startPool concurrency (length items))"
  by (auto simp: poolInv_def startPool_eq)

lemma remaining_start: "remaining n (startPool concurrency n) = n"
  by (simp add: remaining_def startPool_eq filter_map comp_def)

lemma length_workers_start:
  "length (pool_workers (startPool concurrency n)) = nat (min concurrency (int n))"
  by (simp add: startPool_eq)

lemma length_workers_settle:
  "length (pool_workers (settle fn items st w)) = length (pool_workers st)"
  by (simp add: settle_def split: option.splits)

lemma settle_idle:
  "\<not> (w < length (pool_workers st) \<and> pool_workers st ! w \<noteq> None) \<Longrightarrow> settle fn items st w = st"
  by (auto simp: settle_def)

lemma poolInv_settle:
  assumes inv: "poolInv fn items st"
  shows "poolInv fn items (settle fn items st w)"
proof (cases "w < length (pool_workers st) \<and> pool_workers st ! w \<noteq> None")
  case False
  then show ?thesis using inv by (simp add: settle_idle)
next
  case True
  then obtain i where w: "w < length (pool_workers st)" and i: "pool_workers st ! w = Some i"
    by auto
  let ?ws = "pool_workers st" and ?rs = "pool_results st" and ?n = "length items"
  from inv have len: "length ?rs = ?n" and le: "pool_index st \<le> ?n"
    and below: "\<And>w i. w < length ?ws \<Longrightarrow> ?ws ! w = Some i \<Longrightarrow> i < pool_index st"
    and uniq: "\<And>w w' i. w < length ?ws \<Longrightarrow> w' < length ?ws \<Longrightarrow> ?ws ! w = Some i \<Longrightarrow>
                 ?ws ! w' = Some i \<Longrightarrow> w = w'"
    and res: "\<And>j. j < ?n \<Longrightarrow> ?rs ! j =
          (if j < pool_index st \<and> (\<forall>w. w < length ?ws \<longrightarrow> ?ws ! w \<noteq> Some j)
           then outcome fn (items ! j) else None)"
    and fin: "\<And>w. w < length ?ws \<Longrightarrow> ?ws ! w = None \<Longrightarrow> pool_index st = ?n"
    unfolding poolInv_def by blast+
  have upd: "?ws[w := x] ! v = (if w = v then x else ?ws ! v)" for x v
    using w by (simp add: nth_list_update)
  have ilt: "i < pool_index st" using below [OF w i] .
  then have iltn: "i < ?n" using le by simp
  show ?thesis
  proof (cases "pool_index st < ?n")
    case more: True
    let ?ws' = "?ws[w := Some (pool_index st)]" and ?rs' = "?rs[i := outcome fn (items ! i)]"
    have st': "settle fn items st w
                 = \<lparr>pool_index = pool_index st + 1, pool_results = ?rs', pool_workers = ?ws'\<rparr>"
      using w i more by (simp add: settle_def)
    have a: "\<forall>v k. v < length ?ws' \<longrightarrow> ?ws' ! v = Some k \<longrightarrow> k < pool_index st + 1"
    proof (intro allI impI)
      fix v k
      assume "v < length ?ws'" "?ws' ! v = Some k"
      then show "k < pool_index st + 1"
        using below [of v k] by (cases "v = w") (auto simp: upd)
    qed
    have b: "\<forall>v v' k. v < length ?ws' \<longrightarrow> v' < length ?ws' \<longrightarrow> ?ws' ! v = Some k \<longrightarrow>
               ?ws' ! v' = Some k \<longrightarrow> v = v'"
    proof (intro allI impI)
      fix v v' k
      assume v: "v < length ?ws'" "v' < length ?ws'" and e: "?ws' ! v = Some k" "?ws' ! v' = Some k"
      show "v = v'"
      proof (cases "v = w"; cases "v' = w")
        assume "v = w" "v' = w" then show ?thesis by simp
      next
        assume "v = w" "v' \<noteq> w"
        with v e have "k = pool_index st" "?ws ! v' = Some k" by (simp_all add: upd)
        with below [of v' k] v show ?thesis by simp
      next
        assume "v \<noteq> w" "v' = w"
        with v e have "k = pool_index st" "?ws ! v = Some k" by (simp_all add: upd)
        with below [of v k] v show ?thesis by simp
      next
        assume "v \<noteq> w" "v' \<noteq> w"
        with v e uniq [of v v' k] show ?thesis by (simp add: upd)
      qed
    qed
    have c: "?rs' ! j =
          (if j < pool_index st + 1 \<and> (\<forall>v. v < length ?ws' \<longrightarrow> ?ws' ! v \<noteq> Some j)
           then outcome fn (items ! j) else None)" if j: "j < ?n" for j
    proof (cases "j = i")
      case True
      have "?ws' ! v \<noteq> Some i" if "v < length ?ws'" for v
      proof (cases "v = w")
        case True
        then show ?thesis using that ilt by simp
      next
        case False
        then show ?thesis using that uniq [of v w i] w i by (auto simp: upd)
      qed
      then show ?thesis using True ilt iltn len by simp
    next
      case False
      have eq: "(\<forall>v. v < length ?ws' \<longrightarrow> ?ws' ! v \<noteq> Some j)
                  \<longleftrightarrow> j \<noteq> pool_index st \<and> (\<forall>v. v < length ?ws \<longrightarrow> ?ws ! v \<noteq> Some j)"
      proof
        assume h: "\<forall>v. v < length ?ws' \<longrightarrow> ?ws' ! v \<noteq> Some j"
        have "j \<noteq> pool_index st" using h [rule_format, of w] w by simp
        moreover have "?ws ! v \<noteq> Some j" if "v < length ?ws" for v
          using h [rule_format, of v] that i False by (cases "v = w") (simp_all add: upd)
        ultimately show "j \<noteq> pool_index st \<and> (\<forall>v. v < length ?ws \<longrightarrow> ?ws ! v \<noteq> Some j)" by blast
      next
        assume h: "j \<noteq> pool_index st \<and> (\<forall>v. v < length ?ws \<longrightarrow> ?ws ! v \<noteq> Some j)"
        show "\<forall>v. v < length ?ws' \<longrightarrow> ?ws' ! v \<noteq> Some j"
          using h by (auto simp: upd)
      qed
      have "?rs' ! j = ?rs ! j" using False by simp
      also have "\<dots> = (if j < pool_index st \<and> (\<forall>w. w < length ?ws \<longrightarrow> ?ws ! w \<noteq> Some j)
           then outcome fn (items ! j) else None)" using res [OF j] .
      also have "\<dots> = (if j < pool_index st + 1 \<and> (\<forall>v. v < length ?ws' \<longrightarrow> ?ws' ! v \<noteq> Some j)
           then outcome fn (items ! j) else None)"
        unfolding eq by (auto simp: less_Suc_eq)
      finally show ?thesis .
    qed
    have d: "\<forall>v. v < length ?ws' \<longrightarrow> ?ws' ! v = None \<longrightarrow> pool_index st + 1 = ?n"
    proof (intro allI impI)
      fix v
      assume "v < length ?ws'" "?ws' ! v = None"
      then show "pool_index st + 1 = ?n"
        using fin [of v] more by (cases "v = w") (auto simp: upd)
    qed
    show ?thesis
      unfolding st' poolInv_def using len more a b c d by simp
  next
    case full: False
    then have ix: "pool_index st = ?n" using le by simp
    let ?ws' = "?ws[w := None]" and ?rs' = "?rs[i := outcome fn (items ! i)]"
    have st': "settle fn items st w
                 = \<lparr>pool_index = pool_index st, pool_results = ?rs', pool_workers = ?ws'\<rparr>"
      using w i full by (simp add: settle_def)
    have a: "\<forall>v k. v < length ?ws' \<longrightarrow> ?ws' ! v = Some k \<longrightarrow> k < pool_index st"
    proof (intro allI impI)
      fix v k
      assume "v < length ?ws'" "?ws' ! v = Some k"
      then show "k < pool_index st"
        using below [of v k] by (cases "v = w") (auto simp: upd)
    qed
    have b: "\<forall>v v' k. v < length ?ws' \<longrightarrow> v' < length ?ws' \<longrightarrow> ?ws' ! v = Some k \<longrightarrow>
               ?ws' ! v' = Some k \<longrightarrow> v = v'"
    proof (intro allI impI)
      fix v v' k
      assume "v < length ?ws'" "v' < length ?ws'" "?ws' ! v = Some k" "?ws' ! v' = Some k"
      then show "v = v'"
        using uniq [of v v' k] by (cases "v = w"; cases "v' = w") (auto simp: upd)
    qed
    have c: "?rs' ! j =
          (if j < pool_index st \<and> (\<forall>v. v < length ?ws' \<longrightarrow> ?ws' ! v \<noteq> Some j)
           then outcome fn (items ! j) else None)" if j: "j < ?n" for j
    proof (cases "j = i")
      case True
      have "?ws' ! v \<noteq> Some i" if "v < length ?ws'" for v
      proof (cases "v = w")
        case True
        then show ?thesis using that by simp
      next
        case False
        then show ?thesis using that uniq [of v w i] w i by (auto simp: upd)
      qed
      then show ?thesis using True ilt iltn len by simp
    next
      case False
      have eq: "(\<forall>v. v < length ?ws' \<longrightarrow> ?ws' ! v \<noteq> Some j)
                  \<longleftrightarrow> (\<forall>v. v < length ?ws \<longrightarrow> ?ws ! v \<noteq> Some j)"
      proof
        assume h: "\<forall>v. v < length ?ws' \<longrightarrow> ?ws' ! v \<noteq> Some j"
        show "\<forall>v. v < length ?ws \<longrightarrow> ?ws ! v \<noteq> Some j"
        proof (intro allI impI)
          fix v assume "v < length ?ws"
          then show "?ws ! v \<noteq> Some j"
            using h [rule_format, of v] i False by (cases "v = w") (simp_all add: upd)
        qed
      next
        assume h: "\<forall>v. v < length ?ws \<longrightarrow> ?ws ! v \<noteq> Some j"
        show "\<forall>v. v < length ?ws' \<longrightarrow> ?ws' ! v \<noteq> Some j"
          using h by (auto simp: upd)
      qed
      have "?rs' ! j = ?rs ! j" using False by simp
      also have "\<dots> = (if j < pool_index st \<and> (\<forall>w. w < length ?ws \<longrightarrow> ?ws ! w \<noteq> Some j)
           then outcome fn (items ! j) else None)" using res [OF j] .
      finally show ?thesis unfolding eq .
    qed
    show ?thesis
      unfolding st' poolInv_def using len ix a b c by simp
  qed
qed

lemma length_filter_update:
  "w < length xs \<Longrightarrow>
     length (filter P (xs[w := v])) + (if P (xs ! w) then 1 else 0)
       = length (filter P xs) + (if P v then 1 else 0)"
proof (induction xs arbitrary: w)
  case Nil
  then show ?case by simp
next
  case (Cons x xs)
  then show ?case by (cases w) auto
qed

lemma remaining_settle:
  assumes "poolInv fn items st" "w < length (pool_workers st)" "pool_workers st ! w \<noteq> None"
  shows "remaining (length items) (settle fn items st w) + 1 = remaining (length items) st"
proof -
  from assms(3) obtain i where i: "pool_workers st ! w = Some i" by auto
  have le: "pool_index st \<le> length items" using assms(1) by (simp add: poolInv_def)
  show ?thesis
  proof (cases "pool_index st < length items")
    case True
    with assms(2) i length_filter_update [OF assms(2), of "\<lambda>x. x \<noteq> None" "Some (pool_index st)"]
    show ?thesis by (simp add: settle_def remaining_def)
  next
    case False
    with assms(2) i le length_filter_update [OF assms(2), of "\<lambda>x. x \<noteq> None" None]
    show ?thesis by (simp add: settle_def remaining_def)
  qed
qed

lemma poolInv_foldl:
  "poolInv fn items st \<Longrightarrow> poolInv fn items (foldl (settle fn items) st schedule)"
  by (induction schedule arbitrary: st) (simp_all add: poolInv_settle)

lemma length_workers_foldl:
  "length (pool_workers (foldl (settle fn items) st schedule)) = length (pool_workers st)"
  by (induction schedule arbitrary: st) (simp_all add: length_workers_settle)

lemma remaining_foldl:
  "poolInv fn items st \<Longrightarrow> pendingSchedule fn items st schedule \<Longrightarrow>
     remaining (length items) (foldl (settle fn items) st schedule) + length schedule
       = remaining (length items) st"
proof (induction schedule arbitrary: st)
  case Nil
  then show ?case by simp
next
  case (Cons w ws)
  from Cons.prems have w: "w < length (pool_workers st)" "pool_workers st ! w \<noteq> None"
    and rest: "pendingSchedule fn items (settle fn items st w) ws" by simp_all
  from Cons.IH [OF poolInv_settle [OF Cons.prems(1)] rest]
    remaining_settle [OF Cons.prems(1) w]
  show ?case by simp
qed

lemma allReturned_iff:
  assumes inv: "poolInv fn items st" and ne: "pool_workers st \<noteq> [] \<or> items = []"
  shows "allReturned st \<longleftrightarrow> remaining (length items) st = 0"
proof
  assume all: "allReturned st"
  then have none: "\<And>w. w < length (pool_workers st) \<Longrightarrow> pool_workers st ! w = None"
    by (simp add: allReturned_def list_all_length)
  have "filter (\<lambda>x. x \<noteq> None) (pool_workers st) = []"
    using all by (simp add: allReturned_def filter_empty_conv list_all_iff)
  moreover have "pool_index st = length items"
  proof (cases "items = []")
    case True
    then show ?thesis using inv by (simp add: poolInv_def)
  next
    case False
    with ne have "0 < length (pool_workers st)" by simp
    with none [of 0] inv show ?thesis unfolding poolInv_def by blast
  qed
  ultimately show "remaining (length items) st = 0" by (simp add: remaining_def)
next
  assume "remaining (length items) st = 0"
  then have "filter (\<lambda>x. x \<noteq> None) (pool_workers st) = []" by (simp add: remaining_def)
  then show "allReturned st" by (simp add: allReturned_def filter_empty_conv list_all_iff)
qed

lemma results_when_returned:
  assumes inv: "poolInv fn items st" and ne: "pool_workers st \<noteq> [] \<or> items = []"
    and all: "allReturned st"
  shows "pool_results st = map (outcome fn) items"
proof (rule nth_equalityI)
  show "length (pool_results st) = length (map (outcome fn) items)"
    using inv by (simp add: poolInv_def)
next
  fix j
  assume "j < length (pool_results st)"
  then have j: "j < length items" using inv by (simp add: poolInv_def)
  have none: "\<And>w. w < length (pool_workers st) \<Longrightarrow> pool_workers st ! w = None"
    using all by (simp add: allReturned_def list_all_length)
  have "remaining (length items) st = 0" using allReturned_iff [OF inv ne] all by simp
  then have "pool_index st = length items"
    using inv by (simp add: remaining_def poolInv_def)
  moreover have "pool_results st ! j =
      (if j < pool_index st \<and> (\<forall>w. w < length (pool_workers st) \<longrightarrow> pool_workers st ! w \<noteq> Some j)
       then outcome fn (items ! j) else None)"
    using inv j unfolding poolInv_def by blast
  ultimately show "pool_results st ! j = map (outcome fn) items ! j"
    using j none by simp
qed

lemma workers_nonempty:
  "1 \<le> concurrency \<or> items = [] \<Longrightarrow>
     pool_workers (runSchedule items concurrency fn schedule) \<noteq> [] \<or> items = []"
proof (cases "items = []")
  case True
  then show ?thesis by simp
next
  case False
  assume "1 \<le> concurrency \<or> items = []"
  with False have "0 < nat (min concurrency (int (length items)))" by simp
  then have "0 < length (pool_workers (runSchedule items concurrency fn schedule))"
    by (simp add: runSchedule_def length_workers_foldl length_workers_start)
  then show ?thesis by auto
qed

lemma poolInv_run: "poolInv fn items (runSchedule items concurrency fn schedule)"
  unfolding runSchedule_def by (rule poolInv_foldl) (rule poolInv_start)

lemma remaining_run:
  "pendingSchedule fn items (startPool concurrency (length items)) schedule \<Longrightarrow>
     remaining (length items) (runSchedule items concurrency fn schedule) + length schedule
       = length items"
  unfolding runSchedule_def
  using remaining_foldl [OF poolInv_start, of fn items concurrency schedule]
  by (simp add: remaining_start)

section \<open>Properties of the cache\<close>

text \<open>
  C9. For a cache created with \<^verbatim>\<open>maxSize > 0\<close>, after any sequence of \<^verbatim>\<open>get\<close> and \<^verbatim>\<open>set\<close>
  operations on the initially empty store, at any clock readings, the number of stored
  entries is at most \<^verbatim>\<open>maxSize\<close>.
\<close>

theorem cache_size_bounded:
  "0 < maxSize \<Longrightarrow> int (length (run_cache_ops maxSize ops)) \<le> maxSize"
  unfolding run_cache_ops_def by (rule foldl_cache_ops_length) simp_all

theorem cache_size_bounded_witness:
  "(0::int) < 2 \<and>
   int (length (run_cache_ops 2
     [Set 0 0 ''a'' (1::nat) 100, Set 1 1 ''b'' 2 100, Get 2 ''a'', Set 3 3 ''c'' 3 100,
      Set 4 4 ''d'' 4 100])) \<le> 2"
  using cache_size_bounded [of 2
     "[Set 0 0 ''a'' (1::nat) 100, Set 1 1 ''b'' 2 100, Get 2 ''a'', Set 3 3 ''c'' 3 100,
       Set 4 4 ''d'' 4 100]"]
  by simp

text \<open>
  C7. After \<^verbatim>\<open>set(k, v, ttlMs)\<close>, whose expiry instant is the clock reading \<open>now'\<close> plus
  \<open>ttlMs\<close>, a \<^verbatim>\<open>get(k)\<close> at a time \<open>t\<close> not after the expiry instant returns \<open>v\<close>; a
  \<^verbatim>\<open>get(k)\<close> at a time after it returns absent and leaves a store without the key (the
  store of the \<^verbatim>\<open>set\<close> with \<open>k\<close> deleted). This holds for every store the \<^verbatim>\<open>set\<close> starts
  from and every \<^verbatim>\<open>maxSize\<close>.
\<close>

theorem get_after_set:
  "(t \<le> now' + ttlMs \<longrightarrow>
      fst (get_entry maxSize t k (set_entry maxSize now now' k v ttlMs store)) = Some v) \<and>
   (now' + ttlMs < t \<longrightarrow>
      fst (get_entry maxSize t k (set_entry maxSize now now' k v ttlMs store)) = None \<and>
      map_of (snd (get_entry maxSize t k (set_entry maxSize now now' k v ttlMs store))) k = None \<and>
      snd (get_entry maxSize t k (set_entry maxSize now now' k v ttlMs store))
        = AList.delete k (set_entry maxSize now now' k v ttlMs store))"
  by (simp add: get_entry_def map_of_set_entry map_of_delete_same)

theorem get_after_set_witness:
  "((0::int) \<le> 0 + 50 \<and>
      fst (get_entry 0 0 ''k'' (set_entry 0 0 0 ''k'' (7::nat) 50 [])) = Some 7) \<and>
   ((0::int) + 50 < 60 \<and>
      fst (get_entry 0 60 ''k'' (set_entry 0 0 0 ''k'' (7::nat) 50 [])) = None \<and>
      snd (get_entry 0 60 ''k'' (set_entry 0 0 0 ''k'' (7::nat) 50 [])) = [])"
  using get_after_set [of 0 0 50 0 "''k''" 0 "7::nat" "[]"]
        get_after_set [of 60 0 50 0 "''k''" 0 "7::nat" "[]"]
  by (simp add: set_entry_def pruneExpired_def)

text \<open>
  C6. For a cache with a maximum size, \<^verbatim>\<open>set\<close> of a key that is new (absent, or present but
  already expired) gives: the entries of the store that have not expired at the clock
  reading, in their order, without as many from the front as it takes to have fewer than
  \<^verbatim>\<open>maxSize\<close>, followed by the new entry. After any \<^verbatim>\<open>set\<close>, every entry under another key was
  in the store before and has not expired. With \<^verbatim>\<open>maxSize = 2\<close> and three \<^verbatim>\<open>set\<close>s of distinct
  keys: when none has expired, exactly the second and the third key remain; when the first
  key is read (live) before the third \<^verbatim>\<open>set\<close>, the second key is the one evicted; and when
  the second key has expired at the third \<^verbatim>\<open>set\<close>, it is swept and the first key, though
  older, stays.
\<close>

theorem set_evicts_oldest_first:
  "(distinct (map fst store) \<and> 0 < maxSize \<and>
    map_of (filter (\<lambda>(k, entry). \<not> now > expiresAt entry) store) key = None \<longrightarrow>
      set_entry maxSize now now' key v ttlMs store =
        drop (Suc (length (filter (\<lambda>(k, entry). \<not> now > expiresAt entry) store)) - nat maxSize)
             (filter (\<lambda>(k, entry). \<not> now > expiresAt entry) store)
          @ [(key, \<lparr>entry_value = v, expiresAt = now' + ttlMs\<rparr>)]) \<and>
   ((k, e) \<in> set (set_entry maxSize now now' key v ttlMs store) \<and> k \<noteq> key \<longrightarrow>
      (k, e) \<in> set store \<and> now \<le> expiresAt e) \<and>
   (distinct [k1, k2, k3] \<and> t2 \<le> t1' + ttl1 \<and> t3 \<le> t1' + ttl1 \<and> t3 \<le> t2' + ttl2 \<longrightarrow>
      run_cache_ops 2 [Set t1 t1' k1 v1 ttl1, Set t2 t2' k2 v2 ttl2, Set t3 t3' k3 v3 ttl3] =
        [(k2, \<lparr>entry_value = v2, expiresAt = t2' + ttl2\<rparr>),
         (k3, \<lparr>entry_value = v3, expiresAt = t3' + ttl3\<rparr>)]) \<and>
   (distinct [k1, k2, k3] \<and> t2 \<le> t1' + ttl1 \<and> tg \<le> t1' + ttl1 \<and> t3 \<le> t1' + ttl1 \<and>
    t3 \<le> t2' + ttl2 \<longrightarrow>
      run_cache_ops 2 [Set t1 t1' k1 v1 ttl1, Set t2 t2' k2 v2 ttl2, Get tg k1,
                       Set t3 t3' k3 v3 ttl3] =
        [(k1, \<lparr>entry_value = v1, expiresAt = t1' + ttl1\<rparr>),
         (k3, \<lparr>entry_value = v3, expiresAt = t3' + ttl3\<rparr>)]) \<and>
   (distinct [k1, k2, k3] \<and> t2 \<le> t1' + ttl1 \<and> t3 \<le> t1' + ttl1 \<and> t2' + ttl2 < t3 \<longrightarrow>
      run_cache_ops 2 [Set t1 t1' k1 v1 ttl1, Set t2 t2' k2 v2 ttl2, Set t3 t3' k3 v3 ttl3] =
        [(k1, \<lparr>entry_value = v1, expiresAt = t1' + ttl1\<rparr>),
         (k3, \<lparr>entry_value = v3, expiresAt = t3' + ttl3\<rparr>)])"
proof (intro conjI impI)
  assume "distinct (map fst store) \<and> 0 < maxSize \<and>
    map_of (filter (\<lambda>(k, entry). \<not> now > expiresAt entry) store) key = None"
  then show "set_entry maxSize now now' key v ttlMs store =
        drop (Suc (length (filter (\<lambda>(k, entry). \<not> now > expiresAt entry) store)) - nat maxSize)
             (filter (\<lambda>(k, entry). \<not> now > expiresAt entry) store)
          @ [(key, \<lparr>entry_value = v, expiresAt = now' + ttlMs\<rparr>)]"
    using set_entry_new [of store maxSize now key now' v ttlMs]
    by (simp add: pruneExpired_def)
next
  assume "(k, e) \<in> set (set_entry maxSize now now' key v ttlMs store) \<and> k \<noteq> key"
  then show "(k, e) \<in> set store" and "now \<le> expiresAt e"
    using set_entry_swept [of k e maxSize now now' key v ttlMs store] by blast+
next
  let ?e1 = "\<lparr>entry_value = v1, expiresAt = t1' + ttl1\<rparr>"
  let ?e2 = "\<lparr>entry_value = v2, expiresAt = t2' + ttl2\<rparr>"
  let ?e3 = "\<lparr>entry_value = v3, expiresAt = t3' + ttl3\<rparr>"
  assume a: "distinct [k1, k2, k3] \<and> t2 \<le> t1' + ttl1 \<and> t3 \<le> t1' + ttl1 \<and> t3 \<le> t2' + ttl2"
  have s1: "set_entry 2 t1 t1' k1 v1 ttl1 [] = [(k1, ?e1)]"
    by (simp add: set_entry_def pruneExpired_def evict_while.simps evictLru_def)
  have s2: "set_entry 2 t2 t2' k2 v2 ttl2 [(k1, ?e1)] = [(k1, ?e1), (k2, ?e2)]"
    using a by (auto simp: set_entry_def pruneExpired_def evict_while.simps evictLru_def)
  have s3: "set_entry 2 t3 t3' k3 v3 ttl3 [(k1, ?e1), (k2, ?e2)] = [(k2, ?e2), (k3, ?e3)]"
    using a by (auto simp: set_entry_def pruneExpired_def evict_while.simps evictLru_def)
  show "run_cache_ops 2 [Set t1 t1' k1 v1 ttl1, Set t2 t2' k2 v2 ttl2, Set t3 t3' k3 v3 ttl3] =
        [(k2, ?e2), (k3, ?e3)]"
    by (simp add: run_cache_ops_def s1 s2 s3)
next
  let ?e1 = "\<lparr>entry_value = v1, expiresAt = t1' + ttl1\<rparr>"
  let ?e2 = "\<lparr>entry_value = v2, expiresAt = t2' + ttl2\<rparr>"
  let ?e3 = "\<lparr>entry_value = v3, expiresAt = t3' + ttl3\<rparr>"
  assume a: "distinct [k1, k2, k3] \<and> t2 \<le> t1' + ttl1 \<and> tg \<le> t1' + ttl1 \<and> t3 \<le> t1' + ttl1 \<and>
    t3 \<le> t2' + ttl2"
  have s1: "set_entry 2 t1 t1' k1 v1 ttl1 [] = [(k1, ?e1)]"
    by (simp add: set_entry_def pruneExpired_def evict_while.simps evictLru_def)
  have s2: "set_entry 2 t2 t2' k2 v2 ttl2 [(k1, ?e1)] = [(k1, ?e1), (k2, ?e2)]"
    using a by (auto simp: set_entry_def pruneExpired_def evict_while.simps evictLru_def)
  have g: "snd (get_entry 2 tg k1 [(k1, ?e1), (k2, ?e2)]) = [(k2, ?e2), (k1, ?e1)]"
    using a by (auto simp: get_entry_def)
  have s3: "set_entry 2 t3 t3' k3 v3 ttl3 [(k2, ?e2), (k1, ?e1)] = [(k1, ?e1), (k3, ?e3)]"
    using a by (auto simp: set_entry_def pruneExpired_def evict_while.simps evictLru_def)
  show "run_cache_ops 2 [Set t1 t1' k1 v1 ttl1, Set t2 t2' k2 v2 ttl2, Get tg k1,
                       Set t3 t3' k3 v3 ttl3] = [(k1, ?e1), (k3, ?e3)]"
    by (simp add: run_cache_ops_def s1 s2 g s3)
next
  let ?e1 = "\<lparr>entry_value = v1, expiresAt = t1' + ttl1\<rparr>"
  let ?e2 = "\<lparr>entry_value = v2, expiresAt = t2' + ttl2\<rparr>"
  let ?e3 = "\<lparr>entry_value = v3, expiresAt = t3' + ttl3\<rparr>"
  assume a: "distinct [k1, k2, k3] \<and> t2 \<le> t1' + ttl1 \<and> t3 \<le> t1' + ttl1 \<and> t2' + ttl2 < t3"
  have s1: "set_entry 2 t1 t1' k1 v1 ttl1 [] = [(k1, ?e1)]"
    by (simp add: set_entry_def pruneExpired_def evict_while.simps evictLru_def)
  have s2: "set_entry 2 t2 t2' k2 v2 ttl2 [(k1, ?e1)] = [(k1, ?e1), (k2, ?e2)]"
    using a by (auto simp: set_entry_def pruneExpired_def evict_while.simps evictLru_def)
  have s3: "set_entry 2 t3 t3' k3 v3 ttl3 [(k1, ?e1), (k2, ?e2)] = [(k1, ?e1), (k3, ?e3)]"
    using a by (auto simp: set_entry_def pruneExpired_def evict_while.simps evictLru_def)
  show "run_cache_ops 2 [Set t1 t1' k1 v1 ttl1, Set t2 t2' k2 v2 ttl2, Set t3 t3' k3 v3 ttl3] =
        [(k1, ?e1), (k3, ?e3)]"
    by (simp add: run_cache_ops_def s1 s2 s3)
qed

theorem set_evicts_oldest_first_witness:
  "run_cache_ops 2 [Set 0 0 ''a'' (1::nat) 100, Set 1 1 ''b'' 2 100, Set 2 2 ''c'' 3 100] =
     [(''b'', \<lparr>entry_value = 2, expiresAt = 101\<rparr>), (''c'', \<lparr>entry_value = 3, expiresAt = 102\<rparr>)] \<and>
   run_cache_ops 2 [Set 0 0 ''a'' (1::nat) 100, Set 1 1 ''b'' 2 100, Get 2 ''a'',
                    Set 2 2 ''c'' 3 100] =
     [(''a'', \<lparr>entry_value = 1, expiresAt = 100\<rparr>), (''c'', \<lparr>entry_value = 3, expiresAt = 102\<rparr>)] \<and>
   run_cache_ops 2 [Set 0 0 ''a'' (1::nat) 1000, Set 1 1 ''b'' 2 10, Set 200 200 ''c'' 3 100] =
     [(''a'', \<lparr>entry_value = 1, expiresAt = 1000\<rparr>), (''c'', \<lparr>entry_value = 3, expiresAt = 300\<rparr>)] \<and>
   run_cache_ops 2 [Set 0 0 ''a'' (1::nat) 1000, Set 1 1 ''b'' 2 10] =
     [(''a'', \<lparr>entry_value = 1, expiresAt = 1000\<rparr>), (''b'', \<lparr>entry_value = 2, expiresAt = 11\<rparr>)] \<and>
   set_entry 2 200 200 ''c'' (3::nat) 100
       [(''a'', \<lparr>entry_value = 1, expiresAt = 1000\<rparr>), (''b'', \<lparr>entry_value = 2, expiresAt = 11\<rparr>)] =
     [(''a'', \<lparr>entry_value = 1, expiresAt = 1000\<rparr>), (''c'', \<lparr>entry_value = 3, expiresAt = 300\<rparr>)] \<and>
   (''a'', \<lparr>entry_value = 1::nat, expiresAt = 1000\<rparr>)
     \<in> set (set_entry 2 200 200 ''c'' (3::nat) 100
         [(''a'', \<lparr>entry_value = 1, expiresAt = 1000\<rparr>), (''b'', \<lparr>entry_value = 2, expiresAt = 11\<rparr>)]) \<and>
   (200::int) \<le> expiresAt \<lparr>entry_value = 1::nat, expiresAt = 1000\<rparr>"
proof -
  let ?a = "\<lparr>entry_value = 1::nat, expiresAt = 1000\<rparr>"
  let ?b = "\<lparr>entry_value = 2::nat, expiresAt = 11\<rparr>"
  let ?st = "[(''a'', ?a), (''b'', ?b)]"
  have two: "run_cache_ops 2 [Set 0 0 ''a'' (1::nat) 1000, Set 1 1 ''b'' 2 10] = ?st"
    by (simp add: run_cache_ops_def set_entry_def pruneExpired_def evict_while.simps evictLru_def)
  have mem: "(''a'', ?a) \<in> set (set_entry 2 200 200 ''c'' (3::nat) 100 ?st)"
    by (simp add: set_entry_def pruneExpired_def evict_while.simps evictLru_def)
  from two mem
    set_evicts_oldest_first [where store = ?st and maxSize = 2 and now = 200 and now' = 200
      and key = "''c''" and v = 3 and ttlMs = 100 and k = "''a''" and e = ?a
      and ?k1.0 = "''a''" and ?k2.0 = "''b''" and ?k3.0 = "''c''"
      and ?v1.0 = "1::nat" and ?v2.0 = "2::nat" and ?v3.0 = "3::nat"
      and ?t1.0 = 0 and t1' = 0 and ?ttl1.0 = 100 and ?t2.0 = 1 and t2' = 1 and ?ttl2.0 = 100
      and tg = 2 and ?t3.0 = 2 and t3' = 2 and ?ttl3.0 = 100]
    set_evicts_oldest_first [where store = ?st and maxSize = 2 and now = 200 and now' = 200
      and key = "''c''" and v = 3 and ttlMs = 100 and k = "''a''" and e = ?a
      and ?k1.0 = "''a''" and ?k2.0 = "''b''" and ?k3.0 = "''c''"
      and ?v1.0 = "1::nat" and ?v2.0 = "2::nat" and ?v3.0 = "3::nat"
      and ?t1.0 = 0 and t1' = 0 and ?ttl1.0 = 1000 and ?t2.0 = 1 and t2' = 1 and ?ttl2.0 = 10
      and tg = 2 and ?t3.0 = 200 and t3' = 200 and ?ttl3.0 = 100]
  show ?thesis by simp
qed

section \<open>Properties of the aggregation\<close>



text \<open>
  C10. An entry with neither \<^verbatim>\<open>rank\<close> nor \<^verbatim>\<open>placement\<close> gets its zero-based index in the
  event's standings plus 1 as its placement, and the aggregator records that number among
  the placements of the entry's player.
\<close>

theorem placement_from_position:
  "(rank entry = None \<and> placement entry = None \<longrightarrow> standingPlacement entry i = int i + 1) \<and>
   (j < length eventStandings \<and> i < length (standings (eventStandings ! j)) \<and>
    entry = standings (eventStandings ! j) ! i \<and> rank entry = None \<and> placement entry = None \<and>
    standingPlayerKey entry \<noteq> unknownPlayer \<longrightarrow>
      (\<exists>r. map_of (accumulateEvents eventStandings) (standingPlayerKey entry) = Some r \<and>
           int i + 1 \<in> set (placements (toPlayerStats r))))"
proof (intro conjI impI)
  assume "rank entry = None \<and> placement entry = None"
  then show "standingPlacement entry i = int i + 1" by (simp add: standingPlacement_default)
next
  let ?k = "standingPlayerKey entry"
  let ?ies = "entriesOf ?k (indexedEntries eventStandings)"
  assume a: "j < length eventStandings \<and> i < length (standings (eventStandings ! j)) \<and>
    entry = standings (eventStandings ! j) ! i \<and> rank entry = None \<and> placement entry = None \<and>
    standingPlayerKey entry \<noteq> unknownPlayer"
  then have j: "j < length eventStandings" and i: "i < length (standings (eventStandings ! j))"
    and e: "standings (eventStandings ! j) ! i = entry"
    and no: "rank entry = None" "placement entry = None" and k: "?k \<noteq> unknownPlayer"
    by blast+
  have "(i, entry) \<in> set (indexedEntries eventStandings)"
    using in_indexedEntries [OF j i] e by simp
  then have mem: "(i, entry) \<in> set ?ies" by (simp add: entriesOf_def)
  then have "?ies \<noteq> []" by auto
  then obtain r where r: "foldRec None ?ies = Some r" "rec_placements r = map entryPlacement ?ies"
    using foldRec_None [of ?ies] by blast
  have "entryPlacement (i, entry) = int i + 1"
    using no by (simp add: entryPlacement_def standingPlacement_default)
  then have "int i + 1 \<in> set (rec_placements r)"
    using mem r(2) by (metis image_eqI list.set_map)
  then have "int i + 1 \<in> set (placements (toPlayerStats r))" by (simp add: toPlayerStats_def)
  moreover have "map_of (accumulateEvents eventStandings) ?k = Some r"
    using k r(1) by (simp add: accumulateEvents_lookup)
  ultimately show "\<exists>r. map_of (accumulateEvents eventStandings) ?k = Some r \<and>
           int i + 1 \<in> set (placements (toPlayerStats r))" by blast
qed

theorem placement_from_position_witness:
  "standingPlacement (noEntry\<lparr>player_name := Some ''B''\<rparr>) 2 = 3 \<and>
   (\<exists>r. map_of (accumulateEvents
            [\<lparr>event = noEvent, standings =
               [noEntry\<lparr>rank := Some 1, player_name := Some ''A''\<rparr>, noEntry,
                noEntry\<lparr>player_name := Some ''B''\<rparr>]\<rparr>]) ''B'' = Some r \<and>
        3 \<in> set (placements (toPlayerStats r)))"
proof -
  let ?b = "noEntry\<lparr>player_name := Some ''B''\<rparr>"
  let ?E = "\<lparr>event = noEvent, standings =
               [noEntry\<lparr>rank := Some 1, player_name := Some ''A''\<rparr>, noEntry, ?b]\<rparr>"
  have h1: "rank ?b = None \<and> placement ?b = None" by (simp add: noEntry_def)
  have k: "standingPlayerKey ?b = ''B''" by (simp add: noEntry_def standingPlayerKey_def)
  have h2: "0 < length [?E] \<and> 2 < length (standings ([?E] ! 0)) \<and>
    ?b = standings ([?E] ! 0) ! 2 \<and> rank ?b = None \<and> placement ?b = None \<and>
    standingPlayerKey ?b \<noteq> unknownPlayer"
    by (simp add: noEntry_def standingPlayerKey_def unknownPlayer_def)
  from placement_from_position [of ?b 2 0 "[?E]"] h1 h2 k
  show ?thesis by simp
qed

text \<open>
  C1. The aggregation is not independent of the order of the events: the display name of a
  player is the one seen first (until an entry with a per-event-status handle replaces it),
  and players that compare equal keep the order of their first appearance. What does not
  depend on the order: for every permutation of the event list, every player key has a
  record in both runs or in neither, with the same total wins, total losses, events
  played, best placement and first-place count; and the sorted, truncated output has the
  same length and, position by position, the same total wins, total losses and best
  placement.
\<close>

theorem aggregation_totals_order_independent:
  "mset eventStandings = mset eventStandings' \<Longrightarrow>
     (\<forall>k. (map_of (accumulateEvents eventStandings) k = None
             \<longleftrightarrow> map_of (accumulateEvents eventStandings') k = None) \<and>
          (\<forall>r r'. map_of (accumulateEvents eventStandings) k = Some r \<and>
                  map_of (accumulateEvents eventStandings') k = Some r' \<longrightarrow>
             totalWins (toPlayerStats r) = totalWins (toPlayerStats r') \<and>
             totalLosses (toPlayerStats r) = totalLosses (toPlayerStats r') \<and>
             eventsPlayed (toPlayerStats r) = eventsPlayed (toPlayerStats r') \<and>
             bestPlacement (toPlayerStats r) = bestPlacement (toPlayerStats r') \<and>
             firstPlaceFinishes (toPlayerStats r) = firstPlaceFinishes (toPlayerStats r'))) \<and>
     map (\<lambda>p. (totalWins p, totalLosses p, bestPlacement p))
         (aggregateStandingsToPlayers eventStandings minEvents sb limit)
       = map (\<lambda>p. (totalWins p, totalLosses p, bestPlacement p))
           (aggregateStandingsToPlayers eventStandings' minEvents sb limit)"
proof (intro conjI allI impI)
  fix k
  assume ms: "mset eventStandings = mset eventStandings'"
  show "map_of (accumulateEvents eventStandings) k = None
          \<longleftrightarrow> map_of (accumulateEvents eventStandings') k = None"
    using accumulateEvents_core_cong [OF ms, of k] by (metis option.map_disc_iff)
next
  fix k r r'
  assume ms: "mset eventStandings = mset eventStandings'"
    and "map_of (accumulateEvents eventStandings) k = Some r \<and>
         map_of (accumulateEvents eventStandings') k = Some r'"
  then have "statsCore (toPlayerStats r) = statsCore (toPlayerStats r')"
    using accumulateEvents_core_cong [OF ms, of k] by (simp add: statsCore_toPlayerStats)
  then show "totalWins (toPlayerStats r) = totalWins (toPlayerStats r')"
    and "totalLosses (toPlayerStats r) = totalLosses (toPlayerStats r')"
    and "eventsPlayed (toPlayerStats r) = eventsPlayed (toPlayerStats r')"
    and "bestPlacement (toPlayerStats r) = bestPlacement (toPlayerStats r')"
    and "firstPlaceFinishes (toPlayerStats r) = firstPlaceFinishes (toPlayerStats r')"
    by (simp_all add: statsCore_def)
next
  assume ms: "mset eventStandings = mset eventStandings'"
  have "wlb = (\<lambda>p. (totalWins p, totalLosses p, bestPlacement p))"
    by (rule ext) (simp add: wlb_def)
  with aggregate_wlb [OF ms, of minEvents sb limit]
  show "map (\<lambda>p. (totalWins p, totalLosses p, bestPlacement p))
         (aggregateStandingsToPlayers eventStandings minEvents sb limit)
       = map (\<lambda>p. (totalWins p, totalLosses p, bestPlacement p))
           (aggregateStandingsToPlayers eventStandings' minEvents sb limit)"
    by simp
qed

theorem aggregation_totals_order_independent_witness:
  "mset [\<lparr>event = noEvent, standings = [noEntry\<lparr>player_name := Some ''X'', record_field := Some ''1-0''\<rparr>]\<rparr>,
         \<lparr>event = noEvent, standings = [noEntry\<lparr>player_name := Some ''Y'', record_field := Some ''1-0''\<rparr>]\<rparr>]
     = mset [\<lparr>event = noEvent, standings = [noEntry\<lparr>player_name := Some ''Y'', record_field := Some ''1-0''\<rparr>]\<rparr>,
             \<lparr>event = noEvent, standings = [noEntry\<lparr>player_name := Some ''X'', record_field := Some ''1-0''\<rparr>]\<rparr>] \<and>
   map (\<lambda>p. (totalWins p, totalLosses p, bestPlacement p))
       (aggregateStandingsToPlayers
          [\<lparr>event = noEvent, standings = [noEntry\<lparr>player_name := Some ''X'', record_field := Some ''1-0''\<rparr>]\<rparr>,
           \<lparr>event = noEvent, standings = [noEntry\<lparr>player_name := Some ''Y'', record_field := Some ''1-0''\<rparr>]\<rparr>]
          1 total_wins 20)
     = map (\<lambda>p. (totalWins p, totalLosses p, bestPlacement p))
         (aggregateStandingsToPlayers
            [\<lparr>event = noEvent, standings = [noEntry\<lparr>player_name := Some ''Y'', record_field := Some ''1-0''\<rparr>]\<rparr>,
             \<lparr>event = noEvent, standings = [noEntry\<lparr>player_name := Some ''X'', record_field := Some ''1-0''\<rparr>]\<rparr>]
            1 total_wins 20)"
proof -
  let ?EX = "\<lparr>event = noEvent, standings = [noEntry\<lparr>player_name := Some ''X'', record_field := Some ''1-0''\<rparr>]\<rparr>"
  let ?EY = "\<lparr>event = noEvent, standings = [noEntry\<lparr>player_name := Some ''Y'', record_field := Some ''1-0''\<rparr>]\<rparr>"
  have ms: "mset [?EX, ?EY] = mset [?EY, ?EX]" by (simp add: add_mset_commute)
  from aggregation_totals_order_independent [OF ms, of 1 total_wins 20] ms
  show ?thesis by blast
qed

text \<open>
  Two events with one player each, both players 1-0 at first place: whichever event comes
  first gives the first row. And one player (id 7) with a different handle in each event:
  the handle of the first event is the name of the row.
\<close>

theorem aggregation_order_counterexample:
  "aggregateStandingsToPlayers
      [\<lparr>event = noEvent, standings = [noEntry\<lparr>player_name := Some ''X'', record_field := Some ''1-0''\<rparr>]\<rparr>,
       \<lparr>event = noEvent, standings = [noEntry\<lparr>player_name := Some ''Y'', record_field := Some ''1-0''\<rparr>]\<rparr>]
      1 total_wins 20
     = [\<lparr>playerName = ''X'', totalWins = 1, totalLosses = 0, eventsPlayed = 1, bestPlacement = 1,
         firstPlaceFinishes = 1, placements = [1]\<rparr>,
        \<lparr>playerName = ''Y'', totalWins = 1, totalLosses = 0, eventsPlayed = 1, bestPlacement = 1,
         firstPlaceFinishes = 1, placements = [1]\<rparr>] \<and>
   aggregateStandingsToPlayers
      [\<lparr>event = noEvent, standings = [noEntry\<lparr>player_name := Some ''Y'', record_field := Some ''1-0''\<rparr>]\<rparr>,
       \<lparr>event = noEvent, standings = [noEntry\<lparr>player_name := Some ''X'', record_field := Some ''1-0''\<rparr>]\<rparr>]
      1 total_wins 20
     = [\<lparr>playerName = ''Y'', totalWins = 1, totalLosses = 0, eventsPlayed = 1, bestPlacement = 1,
         firstPlaceFinishes = 1, placements = [1]\<rparr>,
        \<lparr>playerName = ''X'', totalWins = 1, totalLosses = 0, eventsPlayed = 1, bestPlacement = 1,
         firstPlaceFinishes = 1, placements = [1]\<rparr>] \<and>
   aggregateStandingsToPlayers
      [\<lparr>event = noEvent, standings =
          [noEntry\<lparr>player := Some \<lparr>player_best_identifier = Some ''Al'', player_id = Some 7\<rparr>\<rparr>]\<rparr>,
       \<lparr>event = noEvent, standings =
          [noEntry\<lparr>player := Some \<lparr>player_best_identifier = Some ''Alan'', player_id = Some 7\<rparr>\<rparr>]\<rparr>]
      1 total_wins 20
     = [\<lparr>playerName = ''Al'', totalWins = 0, totalLosses = 0, eventsPlayed = 2, bestPlacement = 1,
         firstPlaceFinishes = 2, placements = [1, 1]\<rparr>] \<and>
   aggregateStandingsToPlayers
      [\<lparr>event = noEvent, standings =
          [noEntry\<lparr>player := Some \<lparr>player_best_identifier = Some ''Alan'', player_id = Some 7\<rparr>\<rparr>]\<rparr>,
       \<lparr>event = noEvent, standings =
          [noEntry\<lparr>player := Some \<lparr>player_best_identifier = Some ''Al'', player_id = Some 7\<rparr>\<rparr>]\<rparr>]
      1 total_wins 20
     = [\<lparr>playerName = ''Alan'', totalWins = 0, totalLosses = 0, eventsPlayed = 2, bestPlacement = 1,
         firstPlaceFinishes = 2, placements = [1, 1]\<rparr>] \<and>
   mset [\<lparr>event = noEvent, standings = [noEntry\<lparr>player_name := Some ''X'', record_field := Some ''1-0''\<rparr>]\<rparr>,
         \<lparr>event = noEvent, standings = [noEntry\<lparr>player_name := Some ''Y'', record_field := Some ''1-0''\<rparr>]\<rparr>]
     = mset [\<lparr>event = noEvent, standings = [noEntry\<lparr>player_name := Some ''Y'', record_field := Some ''1-0''\<rparr>]\<rparr>,
             \<lparr>event = noEvent, standings = [noEntry\<lparr>player_name := Some ''X'', record_field := Some ''1-0''\<rparr>]\<rparr>] \<and>
   aggregateStandingsToPlayers
      [\<lparr>event = noEvent, standings = [noEntry\<lparr>player_name := Some ''X'', record_field := Some ''1-0''\<rparr>]\<rparr>,
       \<lparr>event = noEvent, standings = [noEntry\<lparr>player_name := Some ''Y'', record_field := Some ''1-0''\<rparr>]\<rparr>]
      1 total_wins 20
     \<noteq> aggregateStandingsToPlayers
      [\<lparr>event = noEvent, standings = [noEntry\<lparr>player_name := Some ''Y'', record_field := Some ''1-0''\<rparr>]\<rparr>,
       \<lparr>event = noEvent, standings = [noEntry\<lparr>player_name := Some ''X'', record_field := Some ''1-0''\<rparr>]\<rparr>]
      1 total_wins 20 \<and>
   aggregateStandingsToPlayers
      [\<lparr>event = noEvent, standings =
          [noEntry\<lparr>player := Some \<lparr>player_best_identifier = Some ''Al'', player_id = Some 7\<rparr>\<rparr>]\<rparr>,
       \<lparr>event = noEvent, standings =
          [noEntry\<lparr>player := Some \<lparr>player_best_identifier = Some ''Alan'', player_id = Some 7\<rparr>\<rparr>]\<rparr>]
      1 total_wins 20
     \<noteq> aggregateStandingsToPlayers
      [\<lparr>event = noEvent, standings =
          [noEntry\<lparr>player := Some \<lparr>player_best_identifier = Some ''Alan'', player_id = Some 7\<rparr>\<rparr>]\<rparr>,
       \<lparr>event = noEvent, standings =
          [noEntry\<lparr>player := Some \<lparr>player_best_identifier = Some ''Al'', player_id = Some 7\<rparr>\<rparr>]\<rparr>]
      1 total_wins 20"
proof -
  have outputs:
    "aggregateStandingsToPlayers
      [\<lparr>event = noEvent, standings = [noEntry\<lparr>player_name := Some ''X'', record_field := Some ''1-0''\<rparr>]\<rparr>,
       \<lparr>event = noEvent, standings = [noEntry\<lparr>player_name := Some ''Y'', record_field := Some ''1-0''\<rparr>]\<rparr>]
      1 total_wins 20
     = [\<lparr>playerName = ''X'', totalWins = 1, totalLosses = 0, eventsPlayed = 1, bestPlacement = 1,
         firstPlaceFinishes = 1, placements = [1]\<rparr>,
        \<lparr>playerName = ''Y'', totalWins = 1, totalLosses = 0, eventsPlayed = 1, bestPlacement = 1,
         firstPlaceFinishes = 1, placements = [1]\<rparr>] \<and>
   aggregateStandingsToPlayers
      [\<lparr>event = noEvent, standings = [noEntry\<lparr>player_name := Some ''Y'', record_field := Some ''1-0''\<rparr>]\<rparr>,
       \<lparr>event = noEvent, standings = [noEntry\<lparr>player_name := Some ''X'', record_field := Some ''1-0''\<rparr>]\<rparr>]
      1 total_wins 20
     = [\<lparr>playerName = ''Y'', totalWins = 1, totalLosses = 0, eventsPlayed = 1, bestPlacement = 1,
         firstPlaceFinishes = 1, placements = [1]\<rparr>,
        \<lparr>playerName = ''X'', totalWins = 1, totalLosses = 0, eventsPlayed = 1, bestPlacement = 1,
         firstPlaceFinishes = 1, placements = [1]\<rparr>] \<and>
   aggregateStandingsToPlayers
      [\<lparr>event = noEvent, standings =
          [noEntry\<lparr>player := Some \<lparr>player_best_identifier = Some ''Al'', player_id = Some 7\<rparr>\<rparr>]\<rparr>,
       \<lparr>event = noEvent, standings =
          [noEntry\<lparr>player := Some \<lparr>player_best_identifier = Some ''Alan'', player_id = Some 7\<rparr>\<rparr>]\<rparr>]
      1 total_wins 20
     = [\<lparr>playerName = ''Al'', totalWins = 0, totalLosses = 0, eventsPlayed = 2, bestPlacement = 1,
         firstPlaceFinishes = 2, placements = [1, 1]\<rparr>] \<and>
   aggregateStandingsToPlayers
      [\<lparr>event = noEvent, standings =
          [noEntry\<lparr>player := Some \<lparr>player_best_identifier = Some ''Alan'', player_id = Some 7\<rparr>\<rparr>]\<rparr>,
       \<lparr>event = noEvent, standings =
          [noEntry\<lparr>player := Some \<lparr>player_best_identifier = Some ''Al'', player_id = Some 7\<rparr>\<rparr>]\<rparr>]
      1 total_wins 20
     = [\<lparr>playerName = ''Alan'', totalWins = 0, totalLosses = 0, eventsPlayed = 2, bestPlacement = 1,
         firstPlaceFinishes = 2, placements = [1, 1]\<rparr>]"
    by code_simp
  have "mset [\<lparr>event = noEvent, standings = [noEntry\<lparr>player_name := Some ''X'', record_field := Some ''1-0''\<rparr>]\<rparr>,
         \<lparr>event = noEvent, standings = [noEntry\<lparr>player_name := Some ''Y'', record_field := Some ''1-0''\<rparr>]\<rparr>]
     = mset [\<lparr>event = noEvent, standings = [noEntry\<lparr>player_name := Some ''Y'', record_field := Some ''1-0''\<rparr>]\<rparr>,
             \<lparr>event = noEvent, standings = [noEntry\<lparr>player_name := Some ''X'', record_field := Some ''1-0''\<rparr>]\<rparr>]"
    by (simp add: add_mset_commute)
  with outputs show ?thesis by simp
qed

section \<open>Properties of the leaderboard entry points\<close>

text \<open>
  Date-range validation is a total function returning an error message or nothing. When
  the host's date parser gives no time for either string the result is the
  "valid YYYY-MM-DD" message; otherwise it is the ordering message exactly when the start
  instant is after the end instant, else the 366-day message exactly when the rounded day
  difference exceeds 366, else no error. For dates that parse to UTC day \<open>ds\<close> at 00:00:00
  and UTC day \<open>de\<close> at 23:59:59 the start is after the end exactly when \<open>de < ds\<close>, and the
  rounded difference is the inclusive day span \<open>de - ds + 1\<close>. The function has no access to
  the upstream services. Which strings the parser accepts is the host's matter.
\<close>

theorem validateDateRange_cases:
  "((dateParse (startDate @ ''T00:00:00Z'') = None \<or> dateParse (endDate @ ''T23:59:59Z'') = None)
      \<longrightarrow> validateDateRange dateParse startDate endDate = Some ''Dates must be valid YYYY-MM-DD.'') \<and>
   (dateParse (startDate @ ''T00:00:00Z'') = Some startMs \<and>
    dateParse (endDate @ ''T23:59:59Z'') = Some endMs \<longrightarrow>
      validateDateRange dateParse startDate endDate =
        (if endMs < startMs then Some ''start_date must be on or before end_date.''
         else if 366 < roundDiv (endMs - startMs) 86400000
         then Some ''Date range cannot exceed 366 days (about 1 year).''
         else None)) \<and>
   (dateParse (startDate @ ''T00:00:00Z'') = Some (86400000 * ds) \<and>
    dateParse (endDate @ ''T23:59:59Z'') = Some (86400000 * de + 86399000) \<longrightarrow>
      validateDateRange dateParse startDate endDate =
        (if de < ds then Some ''start_date must be on or before end_date.''
         else if 366 < de - ds + 1
         then Some ''Date range cannot exceed 366 days (about 1 year).''
         else None))"
proof (intro conjI impI)
  assume "dateParse (startDate @ ''T00:00:00Z'') = None \<or> dateParse (endDate @ ''T23:59:59Z'') = None"
  then show "validateDateRange dateParse startDate endDate = Some ''Dates must be valid YYYY-MM-DD.''"
    by (auto simp: validateDateRange_def split: option.splits)
next
  assume "dateParse (startDate @ ''T00:00:00Z'') = Some startMs \<and>
    dateParse (endDate @ ''T23:59:59Z'') = Some endMs"
  then show "validateDateRange dateParse startDate endDate =
        (if endMs < startMs then Some ''start_date must be on or before end_date.''
         else if 366 < roundDiv (endMs - startMs) 86400000
         then Some ''Date range cannot exceed 366 days (about 1 year).''
         else None)"
    by (simp add: validateDateRange_def MAX_LEADERBOARD_DATE_RANGE_DAYS_def numberToString_366)
next
  assume a: "dateParse (startDate @ ''T00:00:00Z'') = Some (86400000 * ds) \<and>
    dateParse (endDate @ ''T23:59:59Z'') = Some (86400000 * de + 86399000)"
  have ord: "86400000 * de + 86399000 < 86400000 * ds \<longleftrightarrow> de < ds" by auto
  from a ord roundDiv_day_span [of de ds]
  show "validateDateRange dateParse startDate endDate =
        (if de < ds then Some ''start_date must be on or before end_date.''
         else if 366 < de - ds + 1
         then Some ''Date range cannot exceed 366 days (about 1 year).''
         else None)"
    by (simp add: validateDateRange_def MAX_LEADERBOARD_DATE_RANGE_DAYS_def numberToString_366)
qed

theorem validateDateRange_examples:
  "validateDateRange sampleDateParse ''2024-01-01'' ''2024-12-31'' = None \<and>
   validateDateRange sampleDateParse ''2024-01-01'' ''2025-01-01''
     = Some ''Date range cannot exceed 366 days (about 1 year).'' \<and>
   validateDateRange sampleDateParse ''2024-12-31'' ''2024-01-01''
     = Some ''start_date must be on or before end_date.''"
proof -
  have p: "sampleDateParse (''2024-01-01'' @ ''T00:00:00Z'') = Some (86400000 * 19723)"
    "sampleDateParse (''2024-12-31'' @ ''T23:59:59Z'') = Some (86400000 * 20088 + 86399000)"
    "sampleDateParse (''2025-01-01'' @ ''T23:59:59Z'') = Some (86400000 * 20089 + 86399000)"
    "sampleDateParse (''2024-12-31'' @ ''T00:00:00Z'') = Some (86400000 * 20088)"
    "sampleDateParse (''2024-01-01'' @ ''T23:59:59Z'') = Some (86400000 * 19723 + 86399000)"
    by (simp_all add: sampleDateParse_def)
  from p validateDateRange_cases [of sampleDateParse "''2024-01-01''" "''2024-12-31''" _ _ 19723 20088]
    validateDateRange_cases [of sampleDateParse "''2024-01-01''" "''2025-01-01''" _ _ 19723 20089]
    validateDateRange_cases [of sampleDateParse "''2024-12-31''" "''2024-01-01''" _ _ 20088 19723]
  show ?thesis by simp
qed

text \<open>
  C4. The validation does not return an error exactly when a date is not a valid calendar
  date: the only test is that the host's parser gives a time, and the parser gives one for
  a day that the month does not have. With start date 2024-02-30 and end date 2024-12-31
  the validation returns no error, although its own message for that branch is "Dates must
  be valid YYYY-MM-DD."; the start instant it compares is that of 1 March 2024, and the
  requested range, 306 days from there, passes the ordering and the 366-day tests.
\<close>

theorem validateDateRange_accepts_february_30:
  "validateDateRange sampleDateParse ''2024-02-30'' ''2024-12-31'' = None \<and>
   sampleDateParse (''2024-02-30'' @ ''T00:00:00Z'') = Some (86400000 * 19783) \<and>
   sampleDateParse (''2024-03-01'' @ ''T00:00:00Z'') = Some (86400000 * 19783) \<and>
   sampleDateParse (''2024-12-31'' @ ''T23:59:59Z'') = Some (86400000 * 20088 + 86399000) \<and>
   roundDiv (86400000 * 20088 + 86399000 - 86400000 * 19783) 86400000 = 306"
proof -
  have p: "sampleDateParse (''2024-02-30'' @ ''T00:00:00Z'') = Some (86400000 * 19783)"
    "sampleDateParse (''2024-03-01'' @ ''T00:00:00Z'') = Some (86400000 * 19783)"
    "sampleDateParse (''2024-12-31'' @ ''T23:59:59Z'') = Some (86400000 * 20088 + 86399000)"
    by (simp_all add: sampleDateParse_def)
  have r: "roundDiv (86400000 * 20088 + 86399000 - 86400000 * 19783) 86400000 = 306"
    by (simp add: roundDiv_def)
  have v: "validateDateRange sampleDateParse ''2024-02-30'' ''2024-12-31'' = None"
    using p r by (simp add: validateDateRange_def MAX_LEADERBOARD_DATE_RANGE_DAYS_def)
  from v p r show ?thesis by simp
qed

text \<open>
  C8. When validation passes, the scope resolves and event discovery ends with no event,
  each entry point returns its "No past or in-progress events found" error, not a
  leaderboard.
\<close>

theorem no_events_is_an_error:
  "(validateDateRange dateParse startDate endDate = None \<and> geocodeCity city = Some geo \<and>
    collectEventsByCoords
      (searchEventsByCoords (geo_lat geo) (geo_lon geo) (geo_display_name geo)
         (min 100 (max 0 (coalesce [radiusMiles] 50))) [''past'', ''inProgress''] startDate endDate 100)
      1 [] = Some (Inr []) \<longrightarrow>
      getPlayerLeaderboardByCity dateParse geocodeCity searchEventsByCoords fetchAllEventStandings
          city startDate endDate radiusMiles limit minEvents minRounds sortBy
        = Some (Inl (''No past or in-progress events found near '' @ geo_display_name geo
                     @ '' for '' @ startDate @ '' '' @ enDash @ '' '' @ endDate
                     @ ''. Try a larger radius or different dates.''))) \<and>
   (validateDateRange dateParse startDate endDate = None \<and>
    collectEventsByStore
      (\<lambda>label page. searchEventsByStore storeId label [''past'', ''inProgress''] startDate endDate 100 page)
      1 [] storeLabel = Some (Inr ([], resolved)) \<longrightarrow>
      getPlayerLeaderboardByStore dateParse searchEventsByStore fetchAllEventStandings
          storeId storeLabel startDate endDate limit minEvents minRounds sortBy
        = Some (Inl (''No past or in-progress events found at store '' @ numberToString storeId
                     @ '' for '' @ startDate @ '' '' @ enDash @ '' '' @ endDate
                     @ ''. Try different dates.'')))"
  by (simp add: getPlayerLeaderboardByCity_def getPlayerLeaderboardByStore_def Let_def
      MAX_LEADERBOARD_RADIUS_MILES_def)

theorem no_events_is_an_error_witness:
  "getPlayerLeaderboardByCity sampleDateParse
      (\<lambda>c. Some \<lparr>geo_lat = 42, geo_lon = - 83, geo_display_name = ''Detroit, Michigan''\<rparr>)
      (\<lambda>la lo label radius statuses sd ed pageSize page. Inr \<lparr>result_events = [], result_total = 0\<rparr>)
      (\<lambda>ids. []) ''Detroit, MI'' ''2024-01-01'' ''2024-12-31'' None None None None None
     = Some (Inl (''No past or in-progress events found near Detroit, Michigan for 2024-01-01 ''
                  @ enDash @ '' 2024-12-31. Try a larger radius or different dates.'')) \<and>
   getPlayerLeaderboardByStore sampleDateParse
      (\<lambda>sid label statuses sd ed pageSize page. Inr \<lparr>result_events = [], result_total = 0\<rparr>)
      (\<lambda>ids. []) 4622 None ''2024-01-01'' ''2024-12-31'' None None None None
     = Some (Inl (''No past or in-progress events found at store 4622 for 2024-01-01 ''
                  @ enDash @ '' 2024-12-31. Try different dates.''))"
proof -
  let ?geo = "\<lparr>geo_lat = 42, geo_lon = - 83, geo_display_name = ''Detroit, Michigan''\<rparr>"
  let ?page = "\<lparr>result_events = [], result_total = 0\<rparr>"
  have v: "validateDateRange sampleDateParse ''2024-01-01'' ''2024-12-31'' = None"
    by (simp add: validateDateRange_def sampleDateParse_def roundDiv_def
        MAX_LEADERBOARD_DATE_RANGE_DAYS_def)
  have c: "collectEventsByCoords (\<lambda>page. Inr ?page) 1 [] = Some (Inr [])"
    by (rule collectEventsByCoords_empty_page [of _ _ ?page]) simp_all
  have s: "collectEventsByStore (\<lambda>label page. Inr ?page) 1 [] None = Some (Inr ([], None))"
    by (rule collectEventsByStore_empty_page [of _ _ _ ?page]) simp_all
  have n: "numberToString 4622 = ''4622''"
    by (simp add: numberToString_def natToString.simps)
  from v c s n
    no_events_is_an_error [where dateParse = sampleDateParse and startDate = "''2024-01-01''"
      and endDate = "''2024-12-31''" and geocodeCity = "\<lambda>c. Some ?geo" and city = "''Detroit, MI''"
      and geo = ?geo
      and searchEventsByCoords = "\<lambda>la lo label radius statuses sd ed pageSize page. Inr ?page"
      and radiusMiles = None and fetchAllEventStandings = "\<lambda>ids. []" and limit = None
      and minEvents = None and minRounds = None and sortBy = None
      and searchEventsByStore = "\<lambda>sid label statuses sd ed pageSize page. Inr ?page"
      and storeId = 4622 and storeLabel = None and resolved = None]
  show ?thesis by simp
qed

section \<open>Properties of the standings resolver\<close>





section \<open>Properties of the runner\<close>

text \<open>
  C3. For every list of items, every width of at least 1 (the pool has
  \<^verbatim>\<open>min(width, items.length)\<close> workers; an empty list needs none), every operation and every
  order in which the pending promises settle: the array always has the length of the
  items; there are at most as many settlements as items; while fewer have happened some
  worker awaits and the promise is pending; and after as many settlements as items the
  promise is resolved with, at each index, the result of the operation on that item, or
  undefined where the operation rejected or threw. Whenever all workers have returned, the
  array is that one.
\<close>

theorem runner_resolves_with_all_results:
  "1 \<le> concurrency \<or> items = [] \<Longrightarrow>
     length (pool_results (runSchedule items concurrency fn schedule)) = length items \<and>
     (allReturned (runSchedule items concurrency fn schedule) \<longrightarrow>
        runWithBoundedConcurrency items concurrency fn schedule = Some (map (outcome fn) items)) \<and>
     (pendingSchedule fn items (startPool concurrency (length items)) schedule \<longrightarrow>
        length schedule \<le> length items \<and>
        (length schedule < length items \<longrightarrow>
           runWithBoundedConcurrency items concurrency fn schedule = None \<and>
           (\<exists>w. w < length (pool_workers (runSchedule items concurrency fn schedule)) \<and>
                pool_workers (runSchedule items concurrency fn schedule) ! w \<noteq> None)) \<and>
        (length schedule = length items \<longrightarrow>
           runWithBoundedConcurrency items concurrency fn schedule = Some (map (outcome fn) items)))"
proof -
  assume pre: "1 \<le> concurrency \<or> items = []"
  let ?st = "runSchedule items concurrency fn schedule"
  have inv: "poolInv fn items ?st" by (rule poolInv_run)
  have ne: "pool_workers ?st \<noteq> [] \<or> items = []" using pre by (rule workers_nonempty)
  have len: "length (pool_results ?st) = length items" using inv by (simp add: poolInv_def)
  have fin: "runWithBoundedConcurrency items concurrency fn schedule = Some (map (outcome fn) items)"
    if "allReturned ?st"
    using that results_when_returned [OF inv ne that] by (simp add: runWithBoundedConcurrency_def)
  have sched: "length schedule \<le> length items \<and>
        (length schedule < length items \<longrightarrow>
           runWithBoundedConcurrency items concurrency fn schedule = None \<and>
           (\<exists>w. w < length (pool_workers ?st) \<and> pool_workers ?st ! w \<noteq> None)) \<and>
        (length schedule = length items \<longrightarrow>
           runWithBoundedConcurrency items concurrency fn schedule = Some (map (outcome fn) items))"
    if p: "pendingSchedule fn items (startPool concurrency (length items)) schedule"
  proof (intro conjI impI)
    have r: "remaining (length items) ?st + length schedule = length items"
      using p by (rule remaining_run)
    then show "length schedule \<le> length items" by simp
    {
      assume "length schedule < length items"
      with r have "remaining (length items) ?st \<noteq> 0" by simp
      then have na: "\<not> allReturned ?st" using allReturned_iff [OF inv ne] by simp
      then show "runWithBoundedConcurrency items concurrency fn schedule = None"
        by (simp add: runWithBoundedConcurrency_def)
      from na show "\<exists>w. w < length (pool_workers ?st) \<and> pool_workers ?st ! w \<noteq> None"
        by (auto simp: allReturned_def list_all_length)
    }
    {
      assume "length schedule = length items"
      with r have "remaining (length items) ?st = 0" by simp
      then have "allReturned ?st" using allReturned_iff [OF inv ne] by simp
      then show "runWithBoundedConcurrency items concurrency fn schedule
                   = Some (map (outcome fn) items)" by (rule fin)
    }
  qed
  from len fin sched show ?thesis by blast
qed

theorem runner_resolves_with_all_results_witness:
  "pendingSchedule (\<lambda>i. if i = 5 then Inl ''boom'' else Inr (i * 10))
      [0, 1, 2, 3, 4, 5, 6, 7, 8, 9 :: int] (startPool 3 10) [2, 0, 1, 1, 0, 2, 2, 2, 0, 1] \<and>
   runWithBoundedConcurrency [0, 1, 2, 3, 4, 5, 6, 7, 8, 9 :: int] 3
      (\<lambda>i. if i = 5 then Inl ''boom'' else Inr (i * 10)) [2, 0, 1, 1, 0, 2, 2, 2, 0, 1]
     = Some [Some 0, Some 10, Some 20, Some 30, Some 40, None, Some 60, Some 70, Some 80, Some 90]"
proof -
  let ?fn = "\<lambda>i::int. if i = 5 then Inl ''boom'' else (Inr (i * 10) :: string + int)"
  let ?items = "[0, 1, 2, 3, 4, 5, 6, 7, 8, 9 :: int]"
  let ?schedule = "[2, 0, 1, 1, 0, 2, 2, 2, 0, 1 :: nat]"
  have l: "length ?items = 10" by simp
  have p: "pendingSchedule ?fn ?items (startPool 3 10) ?schedule"
    by (simp add: startPool_eq settle_def upt_rec)
  have p': "pendingSchedule ?fn ?items (startPool 3 (length ?items)) ?schedule"
    unfolding l by (rule p)
  have ls: "length ?schedule = length ?items" by simp
  have pre: "(1::int) \<le> 3 \<or> ?items = []" by simp
  have m: "map (outcome ?fn) ?items
             = [Some 0, Some 10, Some 20, Some 30, Some 40, None, Some 60, Some 70, Some 80, Some 90]"
    by (simp add: outcome_def)
  from runner_resolves_with_all_results [OF pre, of ?fn ?schedule] p' ls
  have "runWithBoundedConcurrency ?items 3 ?fn ?schedule = Some (map (outcome ?fn) ?items)"
    by blast
  then have r: "runWithBoundedConcurrency ?items 3 ?fn ?schedule
      = Some [Some 0, Some 10, Some 20, Some 30, Some 40, None, Some 60, Some 70, Some 80, Some 90]"
    by (simp only: m)
  from p r show ?thesis by (rule conjI)
qed

end
